theory Spec2Isabelle
  imports Complex_Main
begin

section \<open>JavaScript values\<close>

text \<open>
  The harness (\<^verbatim>\<open>test/util/http.js\<close>, class \<^verbatim>\<open>MockHttp\<close>) passes JavaScript values
  around: response data, request configs, problem codes, mounted components. Numbers are
  IEEE doubles; \<^verbatim>\<open>Math.floor\<close> and the comparisons \<^verbatim>\<open>>=\<close>, \<^verbatim>\<open><\<close> are exact on doubles, and
  the harness does no other arithmetic, so a finite number is the real number it denotes
  and the three special values are constructors of their own.
\<close>

datatype jsnum = NaN | NegInfinity | Finite real | Infinity

datatype jsval =
    JUndefined
  | JNull
  | JBool bool
  | JNum jsnum
  | JStr string
  | JArr "jsval list"
  | JObj "(string \<times> jsval) list"

text \<open>\<^verbatim>\<open>v == null\<close>: true of \<^verbatim>\<open>null\<close> and \<^verbatim>\<open>undefined\<close> only.\<close>

fun nullish :: "jsval \<Rightarrow> bool" where
  "nullish JUndefined = True"
| "nullish JNull = True"
| "nullish v = False"

text \<open>Truthiness, as \<^verbatim>\<open>&&\<close> and \<^verbatim>\<open>if\<close> read a value.\<close>

fun truthy :: "jsval \<Rightarrow> bool" where
  "truthy JUndefined = False"
| "truthy JNull = False"
| "truthy (JBool b) = b"
| "truthy (JNum NaN) = False"
| "truthy (JNum (Finite q)) = (q \<noteq> 0)"
| "truthy (JNum n) = True"
| "truthy (JStr s) = (s \<noteq> [])"
| "truthy v = True"

fun typeof :: "jsval \<Rightarrow> string" where
  "typeof JUndefined = ''undefined''"
| "typeof JNull = ''object''"
| "typeof (JBool b) = ''boolean''"
| "typeof (JNum n) = ''number''"
| "typeof (JStr s) = ''string''"
| "typeof (JArr xs) = ''object''"
| "typeof (JObj kvs) = ''object''"

text \<open>
  Reading the property \<open>k\<close> of a value that is not \<^verbatim>\<open>null\<close> or \<^verbatim>\<open>undefined\<close>. The harness
  reads only the keys \<^verbatim>\<open>problem\<close> and \<^verbatim>\<open>code\<close>, which no primitive wrapper and no array
  has, so everything but a plain object answers \<^verbatim>\<open>undefined\<close>.
\<close>

fun get_prop :: "jsval \<Rightarrow> string \<Rightarrow> jsval" where
  "get_prop (JObj kvs) k = (case map_of kvs k of None \<Rightarrow> JUndefined | Some v \<Rightarrow> v)"
| "get_prop v k = JUndefined"

fun floor_num :: "jsnum \<Rightarrow> jsnum" where
  "floor_num (Finite q) = Finite (of_int \<lfloor>q\<rfloor>)"
| "floor_num n = n"

text \<open>
  \<^verbatim>\<open>ToNumber\<close>, which \<^verbatim>\<open>Math.floor\<close> applies to its argument. The conversion of a string,
  an array or an object is the language's own (number grammar, \<^verbatim>\<open>valueOf\<close>); it is the
  parameter \<open>tn\<close>.
\<close>

fun ToNumber :: "(jsval \<Rightarrow> jsnum) \<Rightarrow> jsval \<Rightarrow> jsnum" where
  "ToNumber tn JUndefined = NaN"
| "ToNumber tn JNull = Finite 0"
| "ToNumber tn (JBool b) = Finite (if b then 1 else 0)"
| "ToNumber tn (JNum n) = n"
| "ToNumber tn v = tn v"

definition Math_floor :: "(jsval \<Rightarrow> jsnum) \<Rightarrow> jsval \<Rightarrow> jsnum" where
  "Math_floor tn v = floor_num (ToNumber tn v)"

text \<open>\<^verbatim>\<open>a < b\<close> and \<^verbatim>\<open>a >= b\<close> on numbers: both false as soon as one side is \<^verbatim>\<open>NaN\<close>.\<close>

fun num_less :: "jsnum \<Rightarrow> jsnum \<Rightarrow> bool" where
  "num_less NaN b = False"
| "num_less a NaN = False"
| "num_less Infinity b = False"
| "num_less a NegInfinity = False"
| "num_less NegInfinity b = True"
| "num_less a Infinity = True"
| "num_less (Finite p) (Finite q) = (p < q)"

definition num_ge :: "jsnum \<Rightarrow> jsnum \<Rightarrow> bool" where
  "num_ge a b = (a \<noteq> NaN \<and> b \<noteq> NaN \<and> \<not> num_less a b)"

section \<open>Errors, responses, callbacks\<close>

record response =
  status :: jsnum
  data :: jsval

text \<open>\<^verbatim>\<open>{ ...response, config }\<close>\<close>

record response_with_config = response +
  config :: jsval

text \<open>
  What can be thrown or be the reason of a rejection: \<^verbatim>\<open>new Error(message)\<close>, the error
  \<^verbatim>\<open>_http\<close> builds for a response outside 200..299 (an \<^verbatim>\<open>Error\<close> with \<^verbatim>\<open>request = {}\<close> and
  \<^verbatim>\<open>response\<close>), the language's \<^verbatim>\<open>TypeError\<close>, and whatever a callback of the test throws.
\<close>

datatype error =
    Error string
  | ResponseError response_with_config
  | TypeError
  | Thrown jsval

text \<open>
  \<^verbatim>\<open>e == null\<close> for what was thrown: true of \<^verbatim>\<open>throw undefined\<close> and \<^verbatim>\<open>throw null\<close> (and of a
  promise rejected with one of them, as \<^verbatim>\<open>Promise.reject()\<close>), false of every error object.
\<close>

fun is_null :: "error \<Rightarrow> bool" where
  "is_null (Thrown v) = nullish v"
| "is_null e = False"

text \<open>
  \<^verbatim>\<open>this._errorFrom... != null\<close>. Such a property is \<open>None\<close> while it holds the \<^verbatim>\<open>null\<close> that
  \<^verbatim>\<open>_initialPromise\<close> assigns (or nothing at all), and \<open>Some e\<close> once a \<^verbatim>\<open>catch\<close> has assigned
  \<open>e\<close> to it; the test is on the value assigned.
\<close>

definition not_null :: "error option \<Rightarrow> bool" where
  "not_null field = (case field of None \<Rightarrow> False | Some e \<Rightarrow> \<not> is_null e)"

text \<open>
  A callback of the test or of the application, run to completion: the requests it sends
  through \<^verbatim>\<open>$http\<close> while it runs, and then what it returns (or the promise it returns
  fulfills with), \<open>Inl\<close> when it throws (or that promise rejects).
\<close>

record 'a behaviour =
  sends :: "jsval list"
  outcome :: "error + 'a"

text \<open>What an after-responses promise fulfills with: \<^verbatim>\<open>{ component, result }\<close>.\<close>

record settled =
  p_component :: jsval
  p_result :: jsval

text \<open>
  A promise is represented by what it settles with. A series is executed to the end
  before the next one of its chain starts, as \<^verbatim>\<open>_initialPromise\<close> chains on the previous
  promise.
\<close>

type_synonym promise = "error + settled"

type_synonym response_callback = "unit \<Rightarrow> error + response"

section \<open>The series: \<^verbatim>\<open>class MockHttp\<close>, setup phase\<close>

text \<open>
  The eight configuration fields the constructor sets, \<^verbatim>\<open>this._location\<close> as
  \<open>this_location\<close>. A callback field is \<open>None\<close> when it is \<^verbatim>\<open>null\<close>.
\<close>

record series =
  this_previousPromise :: "promise option"
  this_location :: jsval
  this_beforeEachNavGuard :: "(jsval \<Rightarrow> jsval \<Rightarrow> jsval \<Rightarrow> error + unit) option"
  this_mount :: "(unit \<Rightarrow> jsval behaviour) option"
  this_request :: "(jsval \<Rightarrow> jsval behaviour) option"
  this_responses :: "response_callback list"
  this_beforeAnyResponse :: "(jsval \<Rightarrow> jsval behaviour) option"
  this_beforeEachResponse :: "(jsval \<Rightarrow> jsval \<Rightarrow> nat \<Rightarrow> jsval behaviour) option"

text \<open>
  The object the constructor destructures. A key is \<open>None\<close> when it is absent (or
  \<^verbatim>\<open>undefined\<close>, or for a callback \<^verbatim>\<open>null\<close>); then the default of the parameter list
  applies.
\<close>

record options =
  o_previousPromise :: "promise option"
  o_location :: "jsval option"
  o_beforeEachNavGuard :: "(jsval \<Rightarrow> jsval \<Rightarrow> jsval \<Rightarrow> error + unit) option"
  o_mount :: "(unit \<Rightarrow> jsval behaviour) option"
  o_request :: "(jsval \<Rightarrow> jsval behaviour) option"
  o_responses :: "response_callback list option"
  o_beforeAnyResponse :: "(jsval \<Rightarrow> jsval behaviour) option"
  o_beforeEachResponse :: "(jsval \<Rightarrow> jsval \<Rightarrow> nat \<Rightarrow> jsval behaviour) option"

text \<open>\<^verbatim>\<open>{}\<close>\<close>

definition no_options :: options where
  "no_options =
     \<lparr> o_previousPromise = None, o_location = None, o_beforeEachNavGuard = None,
       o_mount = None, o_request = None, o_responses = None,
       o_beforeAnyResponse = None, o_beforeEachResponse = None \<rparr>"

text \<open>\<^verbatim>\<open>constructor({ previousPromise = null, location = null, ..., responses = [], ... } = {})\<close>\<close>

definition MockHttp :: "options \<Rightarrow> series" where
  "MockHttp opts =
     \<lparr> this_previousPromise = o_previousPromise opts,
       this_location = (case o_location opts of None \<Rightarrow> JNull
                        | Some l \<Rightarrow> if l = JUndefined then JNull else l),
       this_beforeEachNavGuard = o_beforeEachNavGuard opts,
       this_mount = o_mount opts,
       this_request = o_request opts,
       this_responses = (case o_responses opts of None \<Rightarrow> [] | Some rs \<Rightarrow> rs),
       this_beforeAnyResponse = o_beforeAnyResponse opts,
       this_beforeEachResponse = o_beforeEachResponse opts \<rparr>"

text \<open>\<^verbatim>\<open>{ ...a, ...b }\<close>: a key of \<open>b\<close> wins over the same key of \<open>a\<close>.\<close>

definition spread :: "options \<Rightarrow> options \<Rightarrow> options" where
  "spread a b =
     \<lparr> o_previousPromise = (case o_previousPromise b of None \<Rightarrow> o_previousPromise a | Some v \<Rightarrow> Some v),
       o_location = (case o_location b of None \<Rightarrow> o_location a | Some v \<Rightarrow> Some v),
       o_beforeEachNavGuard = (case o_beforeEachNavGuard b of None \<Rightarrow> o_beforeEachNavGuard a | Some v \<Rightarrow> Some v),
       o_mount = (case o_mount b of None \<Rightarrow> o_mount a | Some v \<Rightarrow> Some v),
       o_request = (case o_request b of None \<Rightarrow> o_request a | Some v \<Rightarrow> Some v),
       o_responses = (case o_responses b of None \<Rightarrow> o_responses a | Some v \<Rightarrow> Some v),
       o_beforeAnyResponse = (case o_beforeAnyResponse b of None \<Rightarrow> o_beforeAnyResponse a | Some v \<Rightarrow> Some v),
       o_beforeEachResponse = (case o_beforeEachResponse b of None \<Rightarrow> o_beforeEachResponse a | Some v \<Rightarrow> Some v) \<rparr>"

text \<open>\<^verbatim>\<open>_with(options)\<close>: a new series from the fields of this one, then \<open>options\<close>.\<close>

definition with_options :: "series \<Rightarrow> options \<Rightarrow> series" where
  "with_options this opts =
     MockHttp (spread
       \<lparr> o_previousPromise = this_previousPromise this,
         o_location = Some (this_location this),
         o_beforeEachNavGuard = this_beforeEachNavGuard this,
         o_mount = this_mount this,
         o_request = this_request this,
         o_responses = Some (this_responses this),
         o_beforeAnyResponse = this_beforeAnyResponse this,
         o_beforeEachResponse = this_beforeEachResponse this \<rparr>
       opts)"

text \<open>\<^verbatim>\<open>mockHttp = () => new MockHttp()\<close>\<close>

definition mockHttp :: series where
  "mockHttp = MockHttp no_options"

text \<open>
  \<^verbatim>\<open>callback.bind(null)\<close>: a \<^verbatim>\<open>TypeError\<close> when the argument is \<^verbatim>\<open>null\<close>, \<^verbatim>\<open>undefined\<close> or
  not a function (\<open>None\<close>); otherwise a function that behaves as the callback.
\<close>

definition bind_null :: "'f option \<Rightarrow> error + 'f" where
  "bind_null callback = (case callback of None \<Rightarrow> Inl TypeError | Some f \<Rightarrow> Inr f)"

definition route :: "series \<Rightarrow> jsval \<Rightarrow> error + series" where
  "route this location =
     (if \<not> nullish (this_location this)
      then Inl (Error ''cannot call route() more than once in a single series'')
      else Inr (with_options this (no_options\<lparr> o_location := Some location \<rparr>)))"

definition beforeEachNav ::
  "series \<Rightarrow> (jsval \<Rightarrow> jsval \<Rightarrow> jsval \<Rightarrow> error + unit) option \<Rightarrow> error + series" where
  "beforeEachNav this callback =
     (if this_beforeEachNavGuard this \<noteq> None
      then Inl (Error ''cannot call beforeEachNav() more than once in a single chain'')
      else case bind_null callback of
             Inl e \<Rightarrow> Inl e
           | Inr beforeEachNavGuard \<Rightarrow>
               Inr (with_options this (no_options\<lparr> o_beforeEachNavGuard := Some beforeEachNavGuard \<rparr>)))"

text \<open>
  \<^verbatim>\<open>mount(component, options)\<close> stores the closure \<^verbatim>\<open>() => lifecycleMount(component, options)\<close>.
  What mounting a component does is the application's; \<open>lifecycleMount\<close> is a parameter.
\<close>

definition mount ::
  "(jsval \<Rightarrow> jsval \<Rightarrow> jsval behaviour) \<Rightarrow> series \<Rightarrow> jsval \<Rightarrow> jsval \<Rightarrow> error + series" where
  "mount lifecycleMount this component opts =
     (if this_mount this \<noteq> None
      then Inl (Error ''cannot call mount() more than once in a single chain'')
      else if this_previousPromise this \<noteq> None
      then Inl (Error ''cannot call mount() after the first series in a chain'')
      else Inr (with_options this
                  (no_options\<lparr> o_mount := Some (\<lambda>_. lifecycleMount component opts) \<rparr>)))"

definition request :: "series \<Rightarrow> (jsval \<Rightarrow> jsval behaviour) option \<Rightarrow> error + series" where
  "request this callback =
     (if this_request this \<noteq> None
      then Inl (Error ''cannot call request() more than once in a single series'')
      else case bind_null callback of
             Inl e \<Rightarrow> Inl e
           | Inr f \<Rightarrow> Inr (with_options this (no_options\<lparr> o_request := Some f \<rparr>)))"

text \<open>
  The closure \<^verbatim>\<open>respond\<close> queues. \<^verbatim>\<open>const { problem } = result\<close> throws a \<^verbatim>\<open>TypeError\<close> when
  the result is \<^verbatim>\<open>null\<close> or \<^verbatim>\<open>undefined\<close>.
\<close>

definition respond_callback ::
  "(jsval \<Rightarrow> jsnum) \<Rightarrow> (unit \<Rightarrow> error + jsval) \<Rightarrow> response_callback" where
  "respond_callback tn callback = (\<lambda>_.
     case callback () of
       Inl e \<Rightarrow> Inl e
     | Inr result \<Rightarrow>
         if nullish result then Inl TypeError
         else let problem = get_prop result ''problem'' in
           if nullish problem then Inr \<lparr> status = Finite 200, data = result \<rparr>
           else if typeof problem = ''object''
           then Inr \<lparr> status = Math_floor tn (get_prop problem ''code''), data = problem \<rparr>
           else Inr \<lparr> status = Math_floor tn problem,
                      data = JObj [(''code'', problem),
                                   (''message'', JStr ''There was a problem.'')] \<rparr>)"

definition respond :: "(jsval \<Rightarrow> jsnum) \<Rightarrow> series \<Rightarrow> (unit \<Rightarrow> error + jsval) \<Rightarrow> series" where
  "respond tn this callback =
     with_options this
       (no_options\<lparr> o_responses := Some (this_responses this @ [respond_callback tn callback]) \<rparr>)"

definition respondWithData :: "(jsval \<Rightarrow> jsnum) \<Rightarrow> series \<Rightarrow> (unit \<Rightarrow> error + jsval) \<Rightarrow> series" where
  "respondWithData tn this callback = respond tn this callback"

definition respondWithSuccess :: "(jsval \<Rightarrow> jsnum) \<Rightarrow> series \<Rightarrow> series" where
  "respondWithSuccess tn this = respond tn this (\<lambda>_. Inr (JObj [(''success'', JBool True)]))"

text \<open>
  \<^verbatim>\<open>respondWithProblem(problemOrCode = 500.1)\<close>: the default applies when the argument is
  \<^verbatim>\<open>undefined\<close>.
\<close>

definition respondWithProblem :: "(jsval \<Rightarrow> jsnum) \<Rightarrow> series \<Rightarrow> jsval \<Rightarrow> series" where
  "respondWithProblem tn this arg =
     (let problemOrCode = (if arg = JUndefined then JNum (Finite 500.1) else arg)
      in respond tn this (\<lambda>_. Inr (JObj [(''problem'', problemOrCode)])))"

definition beforeAnyResponse :: "series \<Rightarrow> (jsval \<Rightarrow> jsval behaviour) option \<Rightarrow> error + series" where
  "beforeAnyResponse this callback =
     (if this_beforeAnyResponse this \<noteq> None
      then Inl (Error ''cannot call beforeAnyResponse() more than once in a single series'')
      else case bind_null callback of
             Inl e \<Rightarrow> Inl e
           | Inr f \<Rightarrow> Inr (with_options this (no_options\<lparr> o_beforeAnyResponse := Some f \<rparr>)))"

definition beforeEachResponse ::
  "series \<Rightarrow> (jsval \<Rightarrow> jsval \<Rightarrow> nat \<Rightarrow> jsval behaviour) option \<Rightarrow> error + series" where
  "beforeEachResponse this callback =
     (if this_beforeEachResponse this \<noteq> None
      then Inl (Error ''cannot call beforeEachResponse() more than once in a single series'')
      else case bind_null callback of
             Inl e \<Rightarrow> Inl e
           | Inr f \<Rightarrow> Inr (with_options this (no_options\<lparr> o_beforeEachResponse := Some f \<rparr>)))"

section \<open>The series as objects\<close>















section \<open>Execution phase: state\<close>

text \<open>
  The function installed as \<^verbatim>\<open>Vue.prototype.$http\<close>, by identity: one that was in place
  before (\<open>Installed\<close>), or the mock that the \<open>n\<close>-th call of \<^verbatim>\<open>setHttp\<close> built.
  \<open>NoTransport\<close> is \<^verbatim>\<open>undefined\<close>.
\<close>

datatype transport = NoTransport | Installed nat | Stub nat

text \<open>What the closure \<^verbatim>\<open>_http\<close> chains for one request has captured.\<close>

record task =
  t_config :: jsval
  t_index :: nat
  t_responseCallback :: "response_callback option"

datatype log_entry = Request jsval | Response response

text \<open>
  Observation points for the order of events (not a variable of the source): a hook
  callback is entered, the promise returned for request \<open>i\<close> settles.
\<close>

datatype event = BeforeAny | BeforeEach nat | Settled nat

text \<open>
  The module variable \<^verbatim>\<open>inProgress\<close>, \<^verbatim>\<open>Vue.prototype.$http\<close>, and the properties of \<^verbatim>\<open>this\<close>
  that \<^verbatim>\<open>_initialPromise\<close> sets (a property that is still \<^verbatim>\<open>undefined\<close> reads \<open>False\<close>,
  \<open>None\<close>, \<open>JUndefined\<close> or \<open>[]\<close>). The promise \<^verbatim>\<open>this._responsesPromise\<close> is a chain: what
  the part of it that has run settled with (\<open>this_responsesPromise\<close>), and the callbacks
  chained on it that have not run yet, first chained first (\<open>chained\<close>). \<open>http_count\<close> is
  the variable \<^verbatim>\<open>count\<close> of the closure \<^verbatim>\<open>_http()\<close> returned. \<open>events\<close> and
  \<open>eachFailedAt\<close> only observe: the events so far, and the index of the request at which
  the \<^verbatim>\<open>beforeEachResponse\<close> callback failed with an error that is not \<^verbatim>\<open>undefined\<close> or
  \<^verbatim>\<open>null\<close>.
\<close>

record state =
  inProgress :: bool
  http :: transport
  stubs :: nat
  this_inProgress :: bool
  this_errorFromBeforeEachNav :: "error option"
  this_previousHttp :: transport
  this_component :: jsval
  this_responsesPromise :: "error + response_with_config option"
  chained :: "task list"
  this_errorFromBeforeAnyResponse :: "error option"
  this_errorFromBeforeEachResponse :: "error option"
  this_errorFromResponse :: "error option"
  this_requestWithoutResponse :: bool
  this_responseWithoutRequest :: bool
  this_requestResponseLog :: "log_entry list"
  http_count :: nat
  events :: "event list"
  eachFailedAt :: "nat option"

text \<open>
  What is not the harness: the router's navigation (the guards it runs, the requests the
  components of the route send), the requests the application sends once the response to
  request \<open>i\<close> has settled, and the requests it sends later on its own, while the series
  polls (an upload that starts when a file has been read).
\<close>

record env =
  navigation_guards :: "(jsval \<times> jsval) list"
  navigation_sends :: "jsval list"
  reaction :: "nat \<Rightarrow> error + response_with_config option \<Rightarrow> jsval list"
  polling_sends :: "jsval list"

section \<open>Promise chains\<close>

text \<open>
  A settled promise together with the state at the moment it settles. \<^verbatim>\<open>p.then(f)\<close> runs
  \<open>f\<close> when \<open>p\<close> fulfilled and settles as \<open>f\<close> does; \<^verbatim>\<open>p.catch(f)\<close> runs \<open>f\<close> when \<open>p\<close>
  rejected; \<^verbatim>\<open>p.finally(f)\<close> runs \<open>f\<close> either way and settles as \<open>p\<close> did unless \<open>f\<close> fails.
\<close>

definition p_then ::
  "(error + 'a) \<times> state \<Rightarrow> ('a \<Rightarrow> state \<Rightarrow> (error + 'b) \<times> state) \<Rightarrow> (error + 'b) \<times> state" where
  "p_then p f = (case p of (Inl e, st) \<Rightarrow> (Inl e, st) | (Inr v, st) \<Rightarrow> f v st)"

definition p_catch ::
  "(error + 'a) \<times> state \<Rightarrow> (error \<Rightarrow> state \<Rightarrow> (error + 'a) \<times> state) \<Rightarrow> (error + 'a) \<times> state" where
  "p_catch p f = (case p of (Inl e, st) \<Rightarrow> f e st | (Inr v, st) \<Rightarrow> (Inr v, st))"

definition p_finally ::
  "(error + 'a) \<times> state \<Rightarrow> (state \<Rightarrow> (error + 'b) \<times> state) \<Rightarrow> (error + 'a) \<times> state" where
  "p_finally p f =
     (case p of (r, st) \<Rightarrow>
        (case f st of (Inl e, st') \<Rightarrow> (Inl e, st') | (Inr v, st') \<Rightarrow> (r, st')))"

section \<open>The transport stub: \<^verbatim>\<open>_http\<close>\<close>

text \<open>\<^verbatim>\<open>this._responses[count]\<close>: \<^verbatim>\<open>undefined\<close> out of range.\<close>

definition nth_opt :: "'a list \<Rightarrow> nat \<Rightarrow> 'a option" where
  "nth_opt xs i = (if i < length xs then Some (xs ! i) else None)"

text \<open>What the stub returns: a promise rejected at once, or the end of the chain.\<close>

datatype request_promise = Rejected error | Chained nat

text \<open>
  The function \<^verbatim>\<open>_http()\<close> returns, called with \<open>config\<close>. (\<^verbatim>\<open>count === length - 1\<close> is
  written without subtraction: for an empty queue the right side is \<open>-1\<close>.) The chain
  \<^verbatim>\<open>.catch(noop).then(..).then(..).then(..)\<close> is recorded as a task; \<open>run_task\<close> is what
  it does when its turn comes.
\<close>

definition http_stub :: "series \<Rightarrow> jsval \<Rightarrow> state \<Rightarrow> request_promise \<times> state" where
  "http_stub this cfg st0 =
     (let st = st0\<lparr> this_requestResponseLog := this_requestResponseLog st0 @ [Request cfg] \<rparr>;
          chain = (\<lambda>st. (Chained (http_count st),
                     st\<lparr> chained := chained st @
                           [\<lparr> t_config = cfg, t_index = http_count st,
                              t_responseCallback = nth_opt (this_responses this) (http_count st) \<rparr>],
                         http_count := Suc (http_count st) \<rparr>))
      in if Suc (http_count st) = length (this_responses this)
         then chain (st\<lparr> this_responseWithoutRequest := False \<rparr>)
         else if http_count st = length (this_responses this)
         then (Rejected (Error []), st\<lparr> this_requestWithoutResponse := True \<rparr>)
         else chain st)"

text \<open>Requests sent one after the other, the promises dropped.\<close>

definition send_all :: "series \<Rightarrow> jsval list \<Rightarrow> state \<Rightarrow> state" where
  "send_all this cfgs st = foldl (\<lambda>st cfg. snd (http_stub this cfg st)) st cfgs"

text \<open>A callback runs: its requests go through the stub, then it returns or throws.\<close>

definition run_callback :: "series \<Rightarrow> 'a behaviour \<Rightarrow> state \<Rightarrow> (error + 'a) \<times> state" where
  "run_callback this b st = (outcome b, send_all this (sends b) st)"

text \<open>
  \<^verbatim>\<open>_tryBeforeAnyResponse\<close>: \<^verbatim>\<open>Promise.resolve().then(() => hook(component)).catch(e => store)\<close>.
  Calling a hook that is \<^verbatim>\<open>null\<close> is a \<^verbatim>\<open>TypeError\<close> inside the \<^verbatim>\<open>then\<close>.
\<close>

definition tryBeforeAnyResponse :: "series \<Rightarrow> state \<Rightarrow> (error + jsval) \<times> state" where
  "tryBeforeAnyResponse this st =
     p_catch
       (p_then (Inr JUndefined, st)
          (\<lambda>_ st. case this_beforeAnyResponse this of
                     None \<Rightarrow> (Inl TypeError, st)
                   | Some hook \<Rightarrow>
                       run_callback this (hook (this_component st))
                         (st\<lparr> events := events st @ [BeforeAny] \<rparr>)))
       (\<lambda>e st. (Inr JUndefined, st\<lparr> this_errorFromBeforeAnyResponse := Some e \<rparr>))"

text \<open>
  \<^verbatim>\<open>_tryBeforeEachResponse\<close>: the same, after
  \<^verbatim>\<open>if (this._errorFromBeforeEachResponse != null) return undefined\<close>.
\<close>

definition tryBeforeEachResponse ::
  "series \<Rightarrow> jsval \<Rightarrow> nat \<Rightarrow> state \<Rightarrow> (error + jsval) \<times> state" where
  "tryBeforeEachResponse this cfg index st =
     (if not_null (this_errorFromBeforeEachResponse st) then (Inr JUndefined, st)
      else p_catch
        (p_then (Inr JUndefined, st)
           (\<lambda>_ st. case this_beforeEachResponse this of
                      None \<Rightarrow> (Inl TypeError, st)
                    | Some hook \<Rightarrow>
                        run_callback this (hook (this_component st) cfg index)
                          (st\<lparr> events := events st @ [BeforeEach index] \<rparr>)))
        (\<lambda>e st. (Inr JUndefined,
                  st\<lparr> this_errorFromBeforeEachResponse := Some e,
                      eachFailedAt := (if is_null e then eachFailedAt st else Some index) \<rparr>)))"

text \<open>
  The executor of \<^verbatim>\<open>new Promise((resolve, reject) => ...)\<close>, the last link of the chain of
  one request. Calling a response callback that is \<^verbatim>\<open>undefined\<close> is a \<^verbatim>\<open>TypeError\<close> inside
  the \<^verbatim>\<open>try\<close>.
\<close>

definition executor :: "task \<Rightarrow> state \<Rightarrow> (error + response_with_config option) \<times> state" where
  "executor t st =
     (case (case t_responseCallback t of None \<Rightarrow> Inl TypeError | Some responseCallback \<Rightarrow> responseCallback ()) of
        Inl e \<Rightarrow>
          (Inl e,
           st\<lparr> this_errorFromResponse :=
                 (if \<not> not_null (this_errorFromResponse st) then Some e
                  else this_errorFromResponse st) \<rparr>)
      | Inr response \<Rightarrow>
          (let st' = st\<lparr> this_requestResponseLog := this_requestResponseLog st @ [Response response] \<rparr>;
               responseWithConfig =
                 \<lparr> status = status response, data = data response, config = t_config t \<rparr>
           in if num_ge (status response) (Finite 200) \<and> num_less (status response) (Finite 300)
              then (Inr (Some responseWithConfig), st')
              else (Inl (ResponseError responseWithConfig), st')))"

text \<open>
  The chain of one request, run on what the chain before it settled with:
  \<^verbatim>\<open>.catch(noop)\<close>, the two hooks, the executor. The result is what the promise returned
  for the request settles with.
\<close>

definition run_task :: "series \<Rightarrow> task \<Rightarrow> state \<Rightarrow> (error + response_with_config option) \<times> state" where
  "run_task this t st =
     p_then
       (p_then
          (p_then
             (p_catch (this_responsesPromise st, st) (\<lambda>e st. (Inr None, st)))
             (\<lambda>_ st. if t_index t = 0 \<and> this_beforeAnyResponse this \<noteq> None
                      then tryBeforeAnyResponse this st
                      else (Inr JNull, st)))
          (\<lambda>_ st. if this_beforeEachResponse this \<noteq> None
                   then tryBeforeEachResponse this (t_config t) (t_index t) st
                   else (Inr JNull, st)))
       (\<lambda>_ st. executor t st)"

section \<open>The event loop\<close>

text \<open>
  One turn of the chain \<^verbatim>\<open>this._responsesPromise\<close>: the first callback chained and not yet
  run runs, the promise of its request settles, and the application reacts (it may send
  requests). The turns are taken where the chain of \<^verbatim>\<open>afterResponses\<close> waits. A request that
  in fact arrives between two links of a turn only appends to the chain, counts and logs:
  it assigns nothing that the links of the turn read, so the turn is taken as a whole.
\<close>

definition deliver :: "env \<Rightarrow> series \<Rightarrow> state \<Rightarrow> state" where
  "deliver env this st =
     (case chained st of
        [] \<Rightarrow> st
      | t # ts \<Rightarrow>
          (case run_task this t (st\<lparr> chained := ts \<rparr>) of
             (r, st') \<Rightarrow>
               send_all this (reaction env (t_index t) r)
                 (st'\<lparr> this_responsesPromise := r,
                       events := events st' @ [Settled (t_index t)] \<rparr>)))"

fun drain :: "env \<Rightarrow> series \<Rightarrow> nat \<Rightarrow> state \<Rightarrow> state" where
  "drain env this 0 st = st"
| "drain env this (Suc n) st = drain env this n (deliver env this st)"

text \<open>
  Modelled from the spec: \<^verbatim>\<open>wait\<close> of \<^verbatim>\<open>test/util/util.js\<close>, which is not among the sources
  (spec 4.2, step 6: "wait for all in-flight response promises"). It gives the chain the
  turns it needs: every turn takes one callback off the chain, and a request chains one
  only while a response is left, so \<open>length (chained st)\<close> plus the responses left bounds
  the number of turns (\<open>wait_drains\<close> below). It never rejects.
\<close>

definition wait :: "env \<Rightarrow> series \<Rightarrow> state \<Rightarrow> (error + unit) \<times> state" where
  "wait env this st =
     (Inr (),
      drain env this (length (chained st) + (length (this_responses this) - http_count st)) st)"

section \<open>Execution phase: \<^verbatim>\<open>afterResponses\<close>\<close>

text \<open>
  \<^verbatim>\<open>setHttp(respond)\<close> builds a new function around \<open>respond\<close> and installs it.
\<close>

definition setHttp :: "state \<Rightarrow> state" where
  "setHttp st = st\<lparr> http := Stub (stubs st), stubs := Suc (stubs st) \<rparr>"

text \<open>
  The callback \<^verbatim>\<open>_initialPromise\<close> chains on the previous promise. The new closure
  \<^verbatim>\<open>_http()\<close> starts with \<^verbatim>\<open>count = 0\<close>.
\<close>

definition initial_callback :: "series \<Rightarrow> jsval \<Rightarrow> state \<Rightarrow> (error + unit) \<times> state" where
  "initial_callback this component st =
     (if inProgress st then (Inl (Error ''another series is in progress''), st)
      else (Inr (),
        (setHttp (st\<lparr> inProgress := True,
                       this_inProgress := True,
                       this_errorFromBeforeEachNav := None,
                       this_previousHttp := http st \<rparr>))
          \<lparr> http_count := 0,
            this_component := component,
            this_responsesPromise := Inr None,
            chained := [],
            this_errorFromBeforeAnyResponse := None,
            this_errorFromBeforeEachResponse := None,
            this_errorFromResponse := None,
            this_requestWithoutResponse := False,
            this_responseWithoutRequest := (length (this_responses this) \<noteq> 0),
            this_requestResponseLog := [],
            events := [],
            eachFailedAt := None \<rparr>))"

definition initialPromise :: "series \<Rightarrow> state \<Rightarrow> (error + unit) \<times> state" where
  "initialPromise this st =
     p_then
       (case this_previousPromise this of
          Some promise \<Rightarrow> (promise, st)
        | None \<Rightarrow> (Inr \<lparr> p_component = JUndefined, p_result = JUndefined \<rparr>, st))
       (\<lambda>v. initial_callback this (p_component v))"

text \<open>
  Modelled from the spec: \<^verbatim>\<open>beforeEachNav\<close> of \<^verbatim>\<open>test/util/router.js\<close>, which is not among the
  sources (spec 4.2, step 2: an interceptor that forwards every navigation event to the
  guard while the series is active). Step 2 of the chain calls it with
  \<^verbatim>\<open>(to, from) => this._tryBeforeEachNav(to, from)\<close> when the series has a guard. The
  registration changes nothing here; that the router calls the guard from then on is in
  \<open>navigate\<close>.
\<close>

definition install_guard :: "series \<Rightarrow> state \<Rightarrow> (error + unit) \<times> state" where
  "install_guard this st = (Inr (), st)"

text \<open>
  \<^verbatim>\<open>_tryBeforeEachNav\<close>: nothing when the series is not in progress or
  \<^verbatim>\<open>this._errorFromBeforeEachNav != null\<close>; otherwise the guard is called, and what it throws
  is stored.
\<close>

definition tryBeforeEachNav :: "series \<Rightarrow> jsval \<Rightarrow> jsval \<Rightarrow> state \<Rightarrow> state" where
  "tryBeforeEachNav this to_route from_route st =
     (if \<not> this_inProgress st then st
      else if not_null (this_errorFromBeforeEachNav st) then st
      else case (case this_beforeEachNavGuard this of
                   None \<Rightarrow> Inl TypeError
                 | Some guard \<Rightarrow> guard (this_component st) to_route from_route) of
             Inl e \<Rightarrow> st\<lparr> this_errorFromBeforeEachNav := Some e \<rparr>
           | Inr u \<Rightarrow> st)"

text \<open>
  \<^verbatim>\<open>_navigate\<close>: \<^verbatim>\<open>router.push\<close>, resolved on completion or, after an abort, once the store
  says that the last navigation was confirmed. Modelled from the spec: the router and the
  store, which are not among the sources (spec 4.4 and 6). The router runs the guard that
  step 2 installed (when the series has one) for each navigation the push leads to, the
  components of the route send their requests, and the navigation is confirmed in the
  end.
\<close>

definition navigate :: "env \<Rightarrow> series \<Rightarrow> state \<Rightarrow> (error + unit) \<times> state" where
  "navigate env this st =
     (Inr (),
      send_all this (navigation_sends env)
        (foldl (\<lambda>st (to_route, from_route).
                  if this_beforeEachNavGuard this = None then st
                  else tryBeforeEachNav this to_route from_route st)
           st (navigation_guards env)))"

text \<open>\<^verbatim>\<open>this._component = this._mount()\<close>\<close>

definition do_mount :: "series \<Rightarrow> state \<Rightarrow> (error + unit) \<times> state" where
  "do_mount this st =
     (case (case this_mount this of
              None \<Rightarrow> (Inl TypeError, st)
            | Some m \<Rightarrow> run_callback this (m ()) st) of
        (Inl e, st') \<Rightarrow> (Inl e, st')
      | (Inr component, st') \<Rightarrow> (Inr (), st'\<lparr> this_component := component \<rparr>))"

definition navigateAndMount :: "env \<Rightarrow> series \<Rightarrow> state \<Rightarrow> (error + unit) \<times> state" where
  "navigateAndMount env this st =
     (if \<not> nullish (this_location this) \<and> this_mount this \<noteq> None
      then (case navigate env this st of
              (promise, st1) \<Rightarrow>
                (case do_mount this st1 of
                   (Inl e, st2) \<Rightarrow> (Inl e, st2)
                 | (Inr u, st2) \<Rightarrow> (promise, st2)))
      else if \<not> nullish (this_location this) then navigate env this st
      else if this_mount this \<noteq> None then do_mount this st
      else (Inr (), st))"

definition checkStateBeforeRequest :: "state \<Rightarrow> (error + unit) \<times> state" where
  "checkStateBeforeRequest st =
     (if length (this_requestResponseLog st) = 0 then (Inr (), st)
      else (Inl (Error ''a request was sent before the request() callback was run''), st))"

definition restoreHttp :: "state \<Rightarrow> (error + unit) \<times> state" where
  "restoreHttp st =
     (Inr (), if this_inProgress st then st\<lparr> http := this_previousHttp st \<rparr> else st)"

definition checkStateAfterWait :: "state \<Rightarrow> (error + unit) \<times> state" where
  "checkStateAfterWait st =
     (if not_null (this_errorFromBeforeEachNav st)
      then (Inl (Error ''beforeEachNav() callback threw an error''), st)
      else if not_null (this_errorFromBeforeAnyResponse st)
      then (Inl (Error ''beforeAnyResponse() callback threw an error''), st)
      else if not_null (this_errorFromBeforeEachResponse st)
      then (Inl (Error ''beforeEachResponse() callback threw an error''), st)
      else if not_null (this_errorFromResponse st)
      then (Inl (Error ''a response callback threw an error''), st)
      else if this_requestWithoutResponse st \<or> this_responseWithoutRequest st
      then (if this_requestWithoutResponse st
            then (Inl (Error ''request without response: no response specified for request''), st)
            else (Inl (Error ''response without request: not all responses were requested''), st))
      else (Inr (), st))"

definition cleanUpAfterResponses :: "state \<Rightarrow> (error + unit) \<times> state" where
  "cleanUpAfterResponses st = (Inr (), st\<lparr> this_inProgress := False, inProgress := False \<rparr>)"

text \<open>
  The argument of \<^verbatim>\<open>afterResponses\<close>, after \<^verbatim>\<open>typeof optionsOrCallback === 'function'\<close>: the
  callback, and \<^verbatim>\<open>pollWork\<close> when given. \<open>pollWork\<close> applied to the component tells how
  polling it ends: it becomes true (\<open>Inr\<close>), or it throws or stays false (\<open>Inl\<close>).
\<close>

record after_options =
  callback :: "jsval \<Rightarrow> error + jsval"
  pollWork :: "(jsval \<Rightarrow> error + unit) option"

text \<open>
  Modelled from the spec: \<^verbatim>\<open>waitUntil\<close> of \<^verbatim>\<open>test/util/util.js\<close>, which is not among the
  sources (spec 5: the poll is a bounded wait that fails the series with a reported error
  when the predicate never becomes true). While the series polls, the application sends
  what it sends on its own and the response chain takes its turns; then the poll ends.
\<close>

definition waitUntil ::
  "env \<Rightarrow> series \<Rightarrow> (jsval \<Rightarrow> error + unit) \<Rightarrow> state \<Rightarrow> (error + unit) \<times> state" where
  "waitUntil env this poll st =
     (let st' = snd (wait env this (send_all this (polling_sends env) st))
      in (poll (this_component st'), st'))"

text \<open>
  The promise chain of \<^verbatim>\<open>afterResponses\<close> up to and including \<^verbatim>\<open>.finally(() =>
  this._restoreHttp())\<close>.
\<close>

definition until_restore ::
  "env \<Rightarrow> series \<Rightarrow> after_options \<Rightarrow> state \<Rightarrow> (error + jsval) \<times> state" where
  "until_restore env this opts st =
     p_finally
       (p_finally
          (p_finally
             (p_then
                (p_then
                   (p_then
                      (p_then (initialPromise this st) (\<lambda>_. install_guard this))
                      (\<lambda>_. navigateAndMount env this))
                   (\<lambda>_ st. if truthy (this_location this) \<and> this_request this \<noteq> None
                            then wait env this st
                            else (Inr (), st)))
                (\<lambda>_ st. case this_request this of
                           None \<Rightarrow> (Inr JUndefined, st)
                         | Some request_callback \<Rightarrow>
                             p_then (checkStateBeforeRequest st)
                               (\<lambda>_ st. run_callback this (request_callback (this_component st)) st)))
             (wait env this))
          (\<lambda>st. case pollWork opts of
                   None \<Rightarrow> (Inr (), st)
                 | Some poll \<Rightarrow> waitUntil env this poll st))
       restoreHttp"

text \<open>The whole chain: verify, completion callback, result, cleanup.\<close>

definition pipeline ::
  "env \<Rightarrow> series \<Rightarrow> after_options \<Rightarrow> state \<Rightarrow> (error + settled) \<times> state" where
  "pipeline env this opts st =
     p_finally
       (p_then
          (p_then
             (p_then (until_restore env this opts st) (\<lambda>_. checkStateAfterWait))
             (\<lambda>_ st. (callback opts (this_component st), st)))
          (\<lambda>result st. (Inr \<lparr> p_component = this_component st, p_result = result \<rparr>, st)))
       cleanUpAfterResponses"

text \<open>
  \<^verbatim>\<open>afterResponses\<close>: \<open>Inl\<close> when it throws before building the chain; otherwise the new
  series, whose previous promise is the chain, and the state once the chain has settled.
\<close>

definition afterResponses ::
  "env \<Rightarrow> series \<Rightarrow> after_options \<Rightarrow> state \<Rightarrow> error + series \<times> state" where
  "afterResponses env this opts st =
     (if nullish (this_location this) \<and> this_mount this = None \<and> this_request this = None
      then Inl (Error ''route(), mount(), and/or request() required'')
      else case pipeline env this opts st of
             (promise, st') \<Rightarrow>
               Inr (MockHttp (no_options\<lparr> o_previousPromise := Some promise \<rparr>), st'))"

definition complete :: "env \<Rightarrow> series \<Rightarrow> state \<Rightarrow> error + series \<times> state" where
  "complete env this st =
     afterResponses env this \<lparr> callback = (\<lambda>component. Inr component), pollWork = None \<rparr> st"

text \<open>
  \<^verbatim>\<open>toPromise\<close>: \<open>Inl\<close> when it throws; otherwise what the promise it returns settles with,
  and the state then.
\<close>

definition toPromise :: "env \<Rightarrow> series \<Rightarrow> state \<Rightarrow> error + (error + jsval) \<times> state" where
  "toPromise env this st =
     (let anySetup =
            (\<not> nullish (this_location this) \<or> this_beforeEachNavGuard this \<noteq> None
             \<or> this_mount this \<noteq> None \<or> this_request this \<noteq> None
             \<or> length (this_responses this) \<noteq> 0 \<or> this_beforeAnyResponse this \<noteq> None
             \<or> this_beforeEachResponse this \<noteq> None)
      in if \<not> anySetup \<and> this_previousPromise this = None then Inr (Inr JUndefined, st)
         else case (if anySetup
                    then (case complete env this st of
                            Inl e \<Rightarrow> Inl e
                          | Inr (next_series, st') \<Rightarrow> Inr (this_previousPromise next_series, st'))
                    else Inr (this_previousPromise this, st)) of
                Inl e \<Rightarrow> Inl e
              | Inr (None, st') \<Rightarrow> Inl TypeError
              | Inr (Some promise, st') \<Rightarrow>
                  Inr (fst (p_then (promise, st') (\<lambda>v st. (Inr (p_result v), st))), st'))"

text \<open>
  A series object that has not been executed: every property that \<^verbatim>\<open>_initialPromise\<close> sets
  is still \<^verbatim>\<open>undefined\<close>. The module variable and \<^verbatim>\<open>$http\<close> are as given.
\<close>

definition fresh_this :: "bool \<Rightarrow> transport \<Rightarrow> nat \<Rightarrow> state" where
  "fresh_this busy h n =
     \<lparr> inProgress = busy, http = h, stubs = n,
       this_inProgress = False,
       this_errorFromBeforeEachNav = None,
       this_previousHttp = NoTransport,
       this_component = JUndefined,
       this_responsesPromise = Inr None,
       chained = [],
       this_errorFromBeforeAnyResponse = None,
       this_errorFromBeforeEachResponse = None,
       this_errorFromResponse = None,
       this_requestWithoutResponse = False,
       this_responseWithoutRequest = False,
       this_requestResponseLog = [],
       http_count = 0,
       events = [],
       eachFailedAt = None \<rparr>"

text \<open>Another series object takes over: the globals stay, \<^verbatim>\<open>this\<close> is a new object.\<close>

definition other_this :: "state \<Rightarrow> state" where
  "other_this st = fresh_this (inProgress st) (http st) (stubs st)"

section \<open>Example series\<close>

text \<open>An application that navigates nowhere and sends nothing on its own.\<close>

definition quiet :: env where
  "quiet =
     \<lparr> navigation_guards = [], navigation_sends = [], reaction = (\<lambda>i r. []),
       polling_sends = [] \<rparr>"

text \<open>\<^verbatim>\<open>afterResponses(component => component)\<close>\<close>

definition identity_hook :: after_options where
  "identity_hook = \<lparr> callback = (\<lambda>component. Inr component), pollWork = None \<rparr>"

text \<open>A request callback that sends one GET, and one queued response: an empty list.\<close>

definition get_users :: series where
  "get_users =
     mockHttp\<lparr> this_request :=
                 Some (\<lambda>component. \<lparr> sends = [JStr ''/v1/users''], outcome = Inr JUndefined \<rparr>),
               this_responses := [\<lambda>_. Inr \<lparr> status = Finite 200, data = JArr [] \<rparr>] \<rparr>"

text \<open>Nothing runs yet, \<^verbatim>\<open>$http\<close> is the application's own, no stub was ever built.\<close>

definition idle :: state where
  "idle = fresh_this False (Installed 0) 0"

text \<open>The tasks chained for a request answered with a list, and with problem 404.1.\<close>

definition ok_task :: task where
  "ok_task =
     \<lparr> t_config = JStr ''/v1/users'', t_index = 0,
       t_responseCallback = Some (\<lambda>_. Inr \<lparr> status = Finite 200, data = JArr [] \<rparr>) \<rparr>"

definition problem_task :: task where
  "problem_task =
     \<lparr> t_config = JStr ''/v1/users'', t_index = 0,
       t_responseCallback =
         Some (respond_callback (\<lambda>_. NaN)
                 (\<lambda>_. Inr (JObj [(''problem'', JNum (Finite 404.1))]))) \<rparr>"

definition two_gets :: "(jsval \<Rightarrow> jsval behaviour) option" where
  "two_gets = Some (\<lambda>component. \<lparr> sends = [JStr ''/v1/users'', JStr ''/v1/projects''],
                                     outcome = Inr JUndefined \<rparr>)"

definition ok_response :: response_callback where
  "ok_response = (\<lambda>_. Inr \<lparr> status = Finite 200, data = JArr [] \<rparr>)"

text \<open>Two requests, one queued response.\<close>

definition request_without_response :: series where
  "request_without_response = mockHttp\<lparr> this_request := two_gets, this_responses := [ok_response] \<rparr>"

text \<open>One request, two queued responses (scenario B of the specification).\<close>

definition response_without_request :: series where
  "response_without_request =
     get_users\<lparr> this_responses := [ok_response, ok_response] \<rparr>"

text \<open>Two requests, one queued response, and its callback throws.\<close>

definition failing_response :: series where
  "failing_response =
     mockHttp\<lparr> this_request := two_gets,
               this_responses := [\<lambda>_. Inl (Thrown (JStr ''user already exists''))] \<rparr>"

text \<open>One request, one queued response, and the request callback rejects.\<close>

definition failing_request :: series where
  "failing_request =
     mockHttp\<lparr> this_request :=
                 Some (\<lambda>component. \<lparr> sends = [JStr ''/v1/users''],
                                      outcome = Inl (Thrown (JStr ''no such element'')) \<rparr>),
               this_responses := [ok_response] \<rparr>"

definition throwing_hook :: "jsval \<Rightarrow> jsval behaviour" where
  "throwing_hook = (\<lambda>component. \<lparr> sends = [], outcome = Inl (Thrown (JStr ''assertion failed'')) \<rparr>)"

text \<open>One request, one response, and the \<^verbatim>\<open>beforeAnyResponse\<close> callback throws.\<close>

definition failing_any_hook :: series where
  "failing_any_hook = get_users\<lparr> this_beforeAnyResponse := Some throwing_hook \<rparr>"

text \<open>
  One request, one response, and the \<^verbatim>\<open>beforeAnyResponse\<close> callback does \<^verbatim>\<open>throw undefined\<close>
  (or returns \<^verbatim>\<open>Promise.reject()\<close>).
\<close>

definition throwing_undefined :: series where
  "throwing_undefined =
     get_users\<lparr> this_beforeAnyResponse :=
                  Some (\<lambda>component. \<lparr> sends = [], outcome = Inl (Thrown JUndefined) \<rparr>) \<rparr>"

text \<open>The same, and the request callback rejects as well.\<close>

definition failing_hook_and_request :: series where
  "failing_hook_and_request = failing_request\<lparr> this_beforeAnyResponse := Some throwing_hook \<rparr>"

text \<open>One request, and the callback of its response throws.\<close>

definition failing_response_alone :: series where
  "failing_response_alone =
     get_users\<lparr> this_responses := [\<lambda>_. Inl (Thrown (JStr ''user already exists''))] \<rparr>"

definition quiet_hook :: "jsval \<Rightarrow> jsval behaviour" where
  "quiet_hook = (\<lambda>component. \<lparr> sends = [], outcome = Inr JUndefined \<rparr>)"

text \<open>Two concurrent requests, two responses, both hooks.\<close>

definition hooked :: series where
  "hooked =
     mockHttp\<lparr> this_request := two_gets, this_responses := [ok_response, ok_response],
               this_beforeAnyResponse := Some quiet_hook,
               this_beforeEachResponse := Some (\<lambda>component cfg index. quiet_hook component) \<rparr>"

text \<open>The same, but the \<^verbatim>\<open>beforeEachResponse\<close> callback throws.\<close>

definition failing_each_hook :: series where
  "failing_each_hook =
     hooked\<lparr> this_beforeEachResponse := Some (\<lambda>component cfg index. throwing_hook component) \<rparr>"

text \<open>The application's route is entered once, from the root.\<close>

definition one_navigation :: env where
  "one_navigation = quiet\<lparr> navigation_guards := [(JStr ''/users'', JStr ''/'')] \<rparr>"

definition throwing_guard :: "jsval \<Rightarrow> jsval \<Rightarrow> jsval \<Rightarrow> error + unit" where
  "throwing_guard = (\<lambda>component to_route from_route. Inl (Thrown (JStr ''assertion failed'')))"

text \<open>A route, one request, one response, and the navigation guard throws.\<close>

definition failing_guard :: series where
  "failing_guard =
     get_users\<lparr> this_location := JStr ''/users'', this_beforeEachNavGuard := Some throwing_guard \<rparr>"

text \<open>The task chained for a request whose response callback throws.\<close>

definition failing_task :: task where
  "failing_task =
     \<lparr> t_config = JStr ''/v1/users'', t_index = 0,
       t_responseCallback = Some (\<lambda>_. Inl (Thrown (JStr ''user already exists''))) \<rparr>"

text \<open>The same, but the \<^verbatim>\<open>beforeEachResponse\<close> callback does \<^verbatim>\<open>throw undefined\<close>.\<close>

definition each_throwing_undefined :: series where
  "each_throwing_undefined =
     hooked\<lparr> this_beforeEachResponse :=
               Some (\<lambda>component cfg index. \<lparr> sends = [], outcome = Inl (Thrown JUndefined) \<rparr>) \<rparr>"

text \<open>
  A component is mounted and sends nothing; one response is queued and a
  \<^verbatim>\<open>beforeAnyResponse\<close> callback registered.
\<close>

definition unrequested :: series where
  "unrequested =
     mockHttp\<lparr> this_mount := Some (\<lambda>_. \<lparr> sends = [], outcome = Inr JNull \<rparr>),
               this_responses := [ok_response],
               this_beforeAnyResponse := Some quiet_hook \<rparr>"

section \<open>Auxiliary notions for the proofs\<close>

text \<open>
  What only \<open>initial_callback\<close>, \<open>restoreHttp\<close> and \<open>cleanUpAfterResponses\<close> assign: the
  module variable, \<^verbatim>\<open>$http\<close>, \<^verbatim>\<open>this._inProgress\<close> and \<^verbatim>\<open>this._previousHttp\<close>.
\<close>

definition globals :: "state \<Rightarrow> bool \<times> transport \<times> nat \<times> bool \<times> transport" where
  "globals st = (inProgress st, http st, stubs st, this_inProgress st, this_previousHttp st)"

text \<open>
  Between the callback of \<^verbatim>\<open>_initialPromise\<close> and \<^verbatim>\<open>_restoreHttp\<close> the state changes
  through calls of the stub, turns of the response chain, the navigation guard and the
  assignment of \<^verbatim>\<open>this._component\<close>. A property that these four keep holds of the state at
  the verify step when it holds after the callback of \<^verbatim>\<open>_initialPromise\<close>.
\<close>

definition stable :: "env \<Rightarrow> series \<Rightarrow> (state \<Rightarrow> bool) \<Rightarrow> bool" where
  "stable env this I =
     ((\<forall>cfg st. I st \<longrightarrow> I (snd (http_stub this cfg st)))
      \<and> (\<forall>st. I st \<longrightarrow> I (deliver env this st))
      \<and> (\<forall>a b st. I st \<longrightarrow> I (tryBeforeEachNav this a b st))
      \<and> (\<forall>c st. I st \<longrightarrow> I (st\<lparr> this_component := c \<rparr>)))"

text \<open>
  The chain of \<open>until_restore\<close> up to the request callback (before the first
  \<^verbatim>\<open>finally\<close>), and without its last link.
\<close>

definition before_wait :: "env \<Rightarrow> series \<Rightarrow> state \<Rightarrow> (error + jsval) \<times> state" where
  "before_wait env this st =
     p_then
       (p_then
          (p_then
             (p_then (initialPromise this st) (\<lambda>_. install_guard this))
             (\<lambda>_. navigateAndMount env this))
          (\<lambda>_ st. if truthy (this_location this) \<and> this_request this \<noteq> None
                   then wait env this st
                   else (Inr (), st)))
       (\<lambda>_ st. case this_request this of
                  None \<Rightarrow> (Inr JUndefined, st)
                | Some request_callback \<Rightarrow>
                    p_then (checkStateBeforeRequest st)
                      (\<lambda>_ st. run_callback this (request_callback (this_component st)) st))"

definition before_restore ::
  "env \<Rightarrow> series \<Rightarrow> after_options \<Rightarrow> state \<Rightarrow> (error + jsval) \<times> state" where
  "before_restore env this opts st =
     p_finally
       (p_finally (before_wait env this st) (wait env this))
       (\<lambda>st. case pollWork opts of
                None \<Rightarrow> (Inr (), st)
              | Some poll \<Rightarrow> waitUntil env this poll st)"

fun is_request :: "log_entry \<Rightarrow> bool" where
  "is_request (Request cfg) = True"
| "is_request (Response r) = False"

text \<open>The number of requests the stub has received: the \<open>Request\<close> entries of the log.\<close>

definition requests_sent :: "state \<Rightarrow> nat" where
  "requests_sent st = length (filter is_request (this_requestResponseLog st))"

definition counted :: "series \<Rightarrow> state \<Rightarrow> bool" where
  "counted this st =
     (http_count st = min (requests_sent st) (length (this_responses this))
      \<and> this_requestWithoutResponse st = (length (this_responses this) < requests_sent st)
      \<and> this_responseWithoutRequest st = (requests_sent st < length (this_responses this)))"

text \<open>What the four \<^verbatim>\<open>_errorFrom...\<close> properties hold.\<close>

definition stored_errors :: "state \<Rightarrow> error option \<times> error option \<times> error option \<times> error option" where
  "stored_errors st =
     (this_errorFromBeforeEachNav st, this_errorFromBeforeAnyResponse st,
      this_errorFromBeforeEachResponse st, this_errorFromResponse st)"

text \<open>The chain of \<open>run_task\<close> without its last link, the executor.\<close>

definition before_executor :: "series \<Rightarrow> task \<Rightarrow> state \<Rightarrow> (error + jsval) \<times> state" where
  "before_executor this t st =
     p_then
       (p_then
          (p_catch (this_responsesPromise st, st) (\<lambda>e st. (Inr None, st)))
          (\<lambda>_ st. if t_index t = 0 \<and> this_beforeAnyResponse this \<noteq> None
                   then tryBeforeAnyResponse this st
                   else (Inr JNull, st)))
       (\<lambda>_ st. if this_beforeEachResponse this \<noteq> None
                then tryBeforeEachResponse this (t_config t) (t_index t) st
                else (Inr JNull, st))"

text \<open>
  The events of the turn of request \<open>i\<close>: the \<^verbatim>\<open>beforeAnyResponse\<close> callback if the series
  has one and \<open>i\<close> is the first request, the \<^verbatim>\<open>beforeEachResponse\<close> callback if the series
  has one and it has not failed for a request before \<open>i\<close> (\<open>failed\<close> is the index at which
  it failed with an error that is not \<^verbatim>\<open>undefined\<close> or \<^verbatim>\<open>null\<close>), then the promise of the
  request settles.
\<close>

definition block :: "series \<Rightarrow> nat option \<Rightarrow> nat \<Rightarrow> event list" where
  "block this failed i =
     (if i = 0 \<and> this_beforeAnyResponse this \<noteq> None then [BeforeAny] else []) @
     (if this_beforeEachResponse this \<noteq> None \<and> (case failed of None \<Rightarrow> True | Some k \<Rightarrow> i \<le> k)
      then [BeforeEach i] else []) @
     [Settled i]"

text \<open>The callbacks chained and not yet run are those of the requests \<open>k\<close>, \<open>k + 1\<close>, ...\<close>

definition queued :: "nat \<Rightarrow> state \<Rightarrow> bool" where
  "queued k st = (map t_index (chained st) = [k ..< http_count st] \<and> k \<le> http_count st)"

text \<open>
  Between two turns of the response chain, \<open>d\<close> requests answered: the events so far are
  the blocks of the requests \<open>0\<close> to \<open>d - 1\<close> in this order.
\<close>

definition sequenced :: "series \<Rightarrow> nat \<Rightarrow> state \<Rightarrow> bool" where
  "sequenced this d st =
     (queued d st
      \<and> events st = concat (map (block this (eachFailedAt st)) [0 ..< d])
      \<and> (eachFailedAt st = None) = (\<not> not_null (this_errorFromBeforeEachResponse st))
      \<and> (case eachFailedAt st of None \<Rightarrow> True | Some k \<Rightarrow> k < d))"

definition potential :: "series \<Rightarrow> state \<Rightarrow> nat" where
  "potential this st = length (chained st) + (length (this_responses this) - http_count st)"

text \<open>No more requests were accepted than responses are queued.\<close>

definition bounded :: "series \<Rightarrow> state \<Rightarrow> bool" where
  "bounded this st = (http_count st \<le> length (this_responses this))"

fun is_settled :: "event \<Rightarrow> bool" where
  "is_settled (Settled i) = True"
| "is_settled e = False"

section \<open>Setup phase: what the configuration methods return\<close>


lemma with_options_same:
  "this_location this \<noteq> JUndefined \<Longrightarrow> with_options this no_options = this"
  by (simp add: with_options_def MockHttp_def spread_def no_options_def)








lemma responses_with_options:
  "this_responses (with_options this (no_options\<lparr> o_responses := Some rs \<rparr>)) = rs"
  by (simp add: with_options_def MockHttp_def spread_def no_options_def)

lemma mockHttp_fields:
  "mockHttp = \<lparr> this_previousPromise = None, this_location = JNull,
                this_beforeEachNavGuard = None, this_mount = None, this_request = None,
                this_responses = [], this_beforeAnyResponse = None,
                this_beforeEachResponse = None \<rparr>"
  by (simp add: mockHttp_def MockHttp_def no_options_def)

text \<open>
  Claim C4. For a numeric problem code \<open>c\<close>, \<^verbatim>\<open>respondWithProblem(c)\<close> is
  \<^verbatim>\<open>respond(() => ({ problem: c }))\<close>, and what it appends to the queue answers with status
  \<open>floor c\<close> and the body \<^verbatim>\<open>{ code: c, message: 'There was a problem.' }\<close>. When the problem
  is an object (or an array), the status is the floor of its \<^verbatim>\<open>code\<close> and the body is the
  object itself. Without an argument the code is 500.1, so the status is 500.
\<close>

theorem respondWithProblem_descriptor:
  "respondWithProblem tn this (JNum c) = respond tn this (\<lambda>_. Inr (JObj [(''problem'', JNum c)]))
   \<and> this_responses (respondWithProblem tn this (JNum c)) =
       this_responses this @ [respond_callback tn (\<lambda>_. Inr (JObj [(''problem'', JNum c)]))]
   \<and> respond_callback tn (\<lambda>_. Inr (JObj [(''problem'', JNum c)])) () =
       Inr \<lparr> status = floor_num c,
             data = JObj [(''code'', JNum c), (''message'', JStr ''There was a problem.'')] \<rparr>
   \<and> floor_num (Finite q) = Finite (of_int \<lfloor>q\<rfloor>)
   \<and> respond_callback tn (\<lambda>_. Inr (JObj [(''problem'', JObj kvs)])) () =
       Inr \<lparr> status = Math_floor tn (get_prop (JObj kvs) ''code''), data = JObj kvs \<rparr>
   \<and> respond_callback tn (\<lambda>_. Inr (JObj [(''problem'', JArr xs)])) () =
       Inr \<lparr> status = Math_floor tn (get_prop (JArr xs) ''code''), data = JArr xs \<rparr>
   \<and> Math_floor tn (JNum c) = floor_num c
   \<and> respondWithProblem tn this JUndefined = respondWithProblem tn this (JNum (Finite 500.1))
   \<and> floor_num (Finite 500.1) = Finite 500"
  by (simp add: respondWithProblem_def respond_def respond_callback_def Math_floor_def
      responses_with_options)

theorem respondWithProblem_descriptor_witness:
  "this_responses (respondWithProblem (\<lambda>_. NaN) mockHttp (JNum (Finite 404.1))) =
     [respond_callback (\<lambda>_. NaN) (\<lambda>_. Inr (JObj [(''problem'', JNum (Finite 404.1))]))]
   \<and> respond_callback (\<lambda>_. NaN) (\<lambda>_. Inr (JObj [(''problem'', JNum (Finite 404.1))])) () =
       Inr \<lparr> status = Finite 404,
             data = JObj [(''code'', JNum (Finite 404.1)),
                          (''message'', JStr ''There was a problem.'')] \<rparr>
   \<and> respond_callback (\<lambda>_. NaN)
         (\<lambda>_. Inr (JObj [(''problem'', JObj [(''code'', JNum (Finite 403.1)),
                                               (''message'', JStr ''Forbidden'')])])) () =
       Inr \<lparr> status = Finite 403,
             data = JObj [(''code'', JNum (Finite 403.1)), (''message'', JStr ''Forbidden'')] \<rparr>"
proof -
  note t = respondWithProblem_descriptor [of "\<lambda>_. NaN" mockHttp "Finite 404.1" 0
      "[(''code'', JNum (Finite 403.1)), (''message'', JStr ''Forbidden'')]" "[]"]
  have e: "this_responses mockHttp = []"
    by (simp add: mockHttp_fields)
  have f1: "floor_num (Finite 404.1) = Finite 404"
    by simp
  have f2: "Math_floor (\<lambda>_. NaN)
      (get_prop (JObj [(''code'', JNum (Finite 403.1)), (''message'', JStr ''Forbidden'')])
         ''code'') = Finite 403"
    by (simp add: Math_floor_def)
  from t show ?thesis
    unfolding e f1 f2 append_Nil by blast
qed

text \<open>
  Claim C8. Each single-registration method throws at once when its option is already
  set on the series, and \<^verbatim>\<open>mount\<close> throws as well when the series follows another one
  (its previous promise is not \<^verbatim>\<open>null\<close>), mount set or not.
\<close>

theorem single_registration:
  "(\<not> nullish (this_location this) \<longrightarrow>
      route this l = Inl (Error ''cannot call route() more than once in a single series''))
   \<and> (this_beforeEachNavGuard this \<noteq> None \<longrightarrow>
      beforeEachNav this g =
        Inl (Error ''cannot call beforeEachNav() more than once in a single chain''))
   \<and> (this_mount this \<noteq> None \<longrightarrow>
      mount lm this c opts = Inl (Error ''cannot call mount() more than once in a single chain''))
   \<and> (this_mount this = None \<and> this_previousPromise this \<noteq> None \<longrightarrow>
      mount lm this c opts = Inl (Error ''cannot call mount() after the first series in a chain''))
   \<and> (this_request this \<noteq> None \<longrightarrow>
      request this f = Inl (Error ''cannot call request() more than once in a single series''))
   \<and> (this_beforeAnyResponse this \<noteq> None \<longrightarrow>
      beforeAnyResponse this h =
        Inl (Error ''cannot call beforeAnyResponse() more than once in a single series''))
   \<and> (this_beforeEachResponse this \<noteq> None \<longrightarrow>
      beforeEachResponse this k =
        Inl (Error ''cannot call beforeEachResponse() more than once in a single series''))"
  by (simp add: route_def beforeEachNav_def mount_def request_def beforeAnyResponse_def
      beforeEachResponse_def)

theorem single_registration_witness:
  "route (mockHttp\<lparr> this_location := JStr ''/users'' \<rparr>) (JStr ''/'') =
     Inl (Error ''cannot call route() more than once in a single series'')
   \<and> beforeEachNav (mockHttp\<lparr> this_beforeEachNavGuard := Some (\<lambda>c t f. Inr ()) \<rparr>)
        (Some (\<lambda>c t f. Inr ())) =
     Inl (Error ''cannot call beforeEachNav() more than once in a single chain'')
   \<and> mount (\<lambda>c opts. \<lparr> sends = [], outcome = Inr c \<rparr>)
        (mockHttp\<lparr> this_mount := Some (\<lambda>_. \<lparr> sends = [], outcome = Inr JNull \<rparr>) \<rparr>)
        JNull JUndefined =
     Inl (Error ''cannot call mount() more than once in a single chain'')
   \<and> mount (\<lambda>c opts. \<lparr> sends = [], outcome = Inr c \<rparr>)
        (mockHttp\<lparr> this_previousPromise :=
           Some (Inr \<lparr> p_component = JNull, p_result = JNull \<rparr>) \<rparr>)
        JNull JUndefined =
     Inl (Error ''cannot call mount() after the first series in a chain'')
   \<and> request (mockHttp\<lparr> this_request := Some (\<lambda>c. \<lparr> sends = [], outcome = Inr JNull \<rparr>) \<rparr>)
        None =
     Inl (Error ''cannot call request() more than once in a single series'')
   \<and> beforeAnyResponse
        (mockHttp\<lparr> this_beforeAnyResponse := Some (\<lambda>c. \<lparr> sends = [], outcome = Inr JNull \<rparr>) \<rparr>)
        None =
     Inl (Error ''cannot call beforeAnyResponse() more than once in a single series'')
   \<and> beforeEachResponse
        (mockHttp\<lparr> this_beforeEachResponse :=
           Some (\<lambda>c cfg i. \<lparr> sends = [], outcome = Inr JNull \<rparr>) \<rparr>)
        None =
     Inl (Error ''cannot call beforeEachResponse() more than once in a single series'')"
  using single_registration
    [of "mockHttp\<lparr> this_location := JStr ''/users'' \<rparr>" "JStr ''/''"]
    single_registration
    [of "mockHttp\<lparr> this_beforeEachNavGuard := Some (\<lambda>c t f. Inr ()) \<rparr>" _
        "Some (\<lambda>c t f. Inr ())"]
    single_registration
    [of "mockHttp\<lparr> this_mount := Some (\<lambda>_. \<lparr> sends = [], outcome = Inr JNull \<rparr>) \<rparr>" _ _
        "\<lambda>c opts. \<lparr> sends = [], outcome = Inr c \<rparr>" JNull JUndefined]
    single_registration
    [of "mockHttp\<lparr> this_previousPromise :=
           Some (Inr \<lparr> p_component = JNull, p_result = JNull \<rparr>) \<rparr>" _ _
        "\<lambda>c opts. \<lparr> sends = [], outcome = Inr c \<rparr>" JNull JUndefined]
    single_registration
    [of "mockHttp\<lparr> this_request := Some (\<lambda>c. \<lparr> sends = [], outcome = Inr JNull \<rparr>) \<rparr>" _ _ _ _ _
        None]
    single_registration
    [of "mockHttp\<lparr> this_beforeAnyResponse := Some (\<lambda>c. \<lparr> sends = [], outcome = Inr JNull \<rparr>) \<rparr>"
        _ _ _ _ _ _ None]
    single_registration
    [of "mockHttp\<lparr> this_beforeEachResponse :=
           Some (\<lambda>c cfg i. \<lparr> sends = [], outcome = Inr JNull \<rparr>) \<rparr>" _ _ _ _ _ _ _ None]
  by (simp add: mockHttp_fields)






section \<open>Promise chains: simplification\<close>

lemma not_null_simps [simp]: "\<not> not_null None" "not_null (Some e) = (\<not> is_null e)"
  by (simp_all add: not_null_def)

lemma p_then_Inl [simp]: "p_then (Inl e, st) f = (Inl e, st)"
  by (simp add: p_then_def)

lemma p_then_Inr [simp]: "p_then (Inr v, st) f = f v st"
  by (simp add: p_then_def)

lemma p_catch_Inl [simp]: "p_catch (Inl e, st) f = f e st"
  by (simp add: p_catch_def)

lemma p_catch_Inr [simp]: "p_catch (Inr v, st) f = (Inr v, st)"
  by (simp add: p_catch_def)

lemma p_finally_Inr: "f (snd p) = (Inr v, st') \<Longrightarrow> p_finally p f = (fst p, st')"
  by (cases p) (simp add: p_finally_def)

lemma p_finally_Inl: "f (snd p) = (Inl e, st') \<Longrightarrow> p_finally p f = (Inl e, st')"
  by (cases p) (simp add: p_finally_def)

lemma snd_p_finally: "snd (p_finally p f) = snd (f (snd p))"
  by (simp add: p_finally_def split: prod.splits sum.splits)

section \<open>Frame\<close>

lemma p_then_globals:
  assumes "\<And>v st. globals (snd (f v st)) = globals st"
  shows "globals (snd (p_then p f)) = globals (snd p)"
  by (cases p; cases "fst p") (simp_all add: assms)

lemma p_catch_globals:
  assumes "\<And>e st. globals (snd (f e st)) = globals st"
  shows "globals (snd (p_catch p f)) = globals (snd p)"
  by (cases p; cases "fst p") (simp_all add: assms)

lemma p_finally_globals:
  assumes "\<And>st. globals (snd (f st)) = globals st"
  shows "globals (snd (p_finally p f)) = globals (snd p)"
  by (simp add: snd_p_finally assms)

lemma http_stub_globals [simp]: "globals (snd (http_stub this cfg st)) = globals st"
  by (simp add: http_stub_def globals_def Let_def)

lemma send_all_globals [simp]: "globals (send_all this cfgs st) = globals st"
  unfolding send_all_def
  by (induction cfgs arbitrary: st) simp_all

lemma run_callback_globals [simp]: "globals (snd (run_callback this b st)) = globals st"
  by (simp add: run_callback_def)

lemma globals_updates [simp]:
  "globals (st\<lparr> events := ev \<rparr>) = globals st"
  "globals (st\<lparr> chained := ts \<rparr>) = globals st"
  "globals (st\<lparr> this_component := c \<rparr>) = globals st"
  "globals (st\<lparr> this_responsesPromise := r \<rparr>) = globals st"
  "globals (st\<lparr> this_errorFromBeforeAnyResponse := e1 \<rparr>) = globals st"
  "globals (st\<lparr> this_errorFromBeforeEachResponse := e2 \<rparr>) = globals st"
  "globals (st\<lparr> eachFailedAt := k \<rparr>) = globals st"
  by (simp_all add: globals_def)

lemma tryBeforeAnyResponse_globals [simp]:
  "globals (snd (tryBeforeAnyResponse this st)) = globals st"
  by (cases "this_beforeAnyResponse this")
     (simp_all add: tryBeforeAnyResponse_def p_catch_globals)

lemma tryBeforeEachResponse_globals [simp]:
  "globals (snd (tryBeforeEachResponse this cfg i st)) = globals st"
proof (cases "not_null (this_errorFromBeforeEachResponse st)")
  case True
  then show ?thesis by (simp add: tryBeforeEachResponse_def)
next
  case False
  then show ?thesis
    by (cases "this_beforeEachResponse this")
       (simp_all add: tryBeforeEachResponse_def p_catch_globals)
qed

lemma executor_globals [simp]: "globals (snd (executor t st)) = globals st"
  by (simp add: executor_def globals_def Let_def split: option.splits sum.splits)

lemma run_task_globals [simp]: "globals (snd (run_task this t st)) = globals st"
  by (simp add: run_task_def p_then_globals p_catch_globals)

lemma deliver_globals [simp]: "globals (deliver env this st) = globals st"
proof (cases "chained st")
  case Nil
  then show ?thesis by (simp add: deliver_def)
next
  case (Cons t ts)
  have "globals (snd (run_task this t (st\<lparr> chained := ts \<rparr>))) = globals st"
    by simp
  then show ?thesis
    using Cons by (simp add: deliver_def split_beta)
qed

lemma drain_globals [simp]: "globals (drain env this n st) = globals st"
  by (induction n arbitrary: st) simp_all

lemma wait_globals [simp]: "globals (snd (wait env this st)) = globals st"
  by (simp add: wait_def)

lemma tryBeforeEachNav_globals [simp]: "globals (tryBeforeEachNav this a b st) = globals st"
  by (simp add: tryBeforeEachNav_def globals_def split: option.splits sum.splits)

lemma guards_globals [simp]:
  "globals
     (foldl (\<lambda>st (to_route, from_route).
               if this_beforeEachNavGuard this = None then st
               else tryBeforeEachNav this to_route from_route st) st gs) = globals st"
  by (induction gs arbitrary: st) (simp_all add: split_beta)

lemma navigate_globals [simp]: "globals (snd (navigate env this st)) = globals st"
  by (simp add: navigate_def)

lemma do_mount_globals [simp]: "globals (snd (do_mount this st)) = globals st"
proof (cases "this_mount this")
  case None
  then show ?thesis by (simp add: do_mount_def)
next
  case (Some m)
  have "globals (snd (run_callback this (m ()) st)) = globals st"
    by simp
  then show ?thesis
    using Some
    by (cases "run_callback this (m ()) st"; cases "fst (run_callback this (m ()) st)")
       (simp_all add: do_mount_def)
qed

lemma navigateAndMount_globals [simp]: "globals (snd (navigateAndMount env this st)) = globals st"
proof -
  have a: "globals (snd (do_mount this (snd (navigate env this st)))) = globals st"
    by simp
  show ?thesis
    using a
    by (cases "navigate env this st"; cases "do_mount this (snd (navigate env this st))";
        cases "fst (do_mount this (snd (navigate env this st)))")
       (simp_all add: navigateAndMount_def)
qed

lemma checkStateBeforeRequest_globals [simp]:
  "globals (snd (checkStateBeforeRequest st)) = globals st"
  by (simp add: checkStateBeforeRequest_def)

lemma install_guard_globals [simp]: "globals (snd (install_guard this st)) = globals st"
  by (simp add: install_guard_def)

lemma request_step_globals:
  "globals (snd (case this_request this of
                   None \<Rightarrow> (Inr JUndefined, st)
                 | Some request_callback \<Rightarrow>
                     p_then (checkStateBeforeRequest st)
                       (\<lambda>_ st. run_callback this (request_callback (this_component st)) st))) =
   globals st"
  by (cases "this_request this") (simp_all add: p_then_globals)

lemma waitUntil_globals [simp]: "globals (snd (waitUntil env this poll st)) = globals st"
  by (simp add: waitUntil_def Let_def)

lemma poll_step_globals:
  "globals (snd (case pollWork opts of
                   None \<Rightarrow> (Inr (), st)
                 | Some poll \<Rightarrow> waitUntil env this poll st)) = globals st"
  by (cases "pollWork opts") simp_all

lemma until_restore_before: "until_restore env this opts st = p_finally (before_restore env this opts st) restoreHttp"
  by (simp add: until_restore_def before_restore_def before_wait_def)

lemma before_restore_globals:
  "globals (snd (before_restore env this opts st)) = globals (snd (initialPromise this st))"
  by (simp add: before_restore_def before_wait_def p_finally_globals p_then_globals poll_step_globals
      request_step_globals)


lemma initialPromise_began:
  assumes "fst (initialPromise this st) = Inr ()"
  shows "\<not> inProgress st"
    and "this_inProgress (snd (initialPromise this st))"
    and "this_previousHttp (snd (initialPromise this st)) = http st"
    and "inProgress (snd (initialPromise this st))"
  using assms
  by (auto simp: initialPromise_def initial_callback_def setHttp_def p_then_def
      split: option.splits sum.splits if_splits)

lemma checkStateAfterWait_state [simp]: "snd (checkStateAfterWait st) = st"
  by (simp add: checkStateAfterWait_def)

lemma snd_p_then_same:
  assumes "\<And>v st. snd (f v st) = st"
  shows "snd (p_then p f) = snd p"
  by (cases p; cases "fst p") (simp_all add: assms)

lemma pipeline_state:
  "snd (pipeline env this opts st) =
     (snd (until_restore env this opts st))\<lparr> this_inProgress := False, inProgress := False \<rparr>"
  by (simp add: pipeline_def snd_p_finally cleanUpAfterResponses_def snd_p_then_same)

lemma until_restore_state:
  "snd (until_restore env this opts st) = snd (restoreHttp (snd (before_restore env this opts st)))"
  by (simp add: until_restore_before snd_p_finally)

section \<open>Invariants of an execution\<close>

lemma stable_send_all:
  assumes "stable env this I" and "I st"
  shows "I (send_all this cfgs st)"
  using assms(2) unfolding send_all_def
proof (induction cfgs arbitrary: st)
  case Nil
  then show ?case by simp
next
  case (Cons c cs)
  from assms(1) Cons.prems have "I (snd (http_stub this c st))"
    by (simp add: stable_def)
  then show ?case
    using Cons.IH by simp
qed

lemma stable_run_callback:
  assumes "stable env this I" and "I st"
  shows "I (snd (run_callback this b st))"
  using stable_send_all [OF assms] by (simp add: run_callback_def)

lemma stable_drain:
  assumes "stable env this I" and "I st"
  shows "I (drain env this n st)"
  using assms(2)
proof (induction n arbitrary: st)
  case 0
  then show ?case by simp
next
  case (Suc n)
  from assms(1) Suc.prems have "I (deliver env this st)"
    by (simp add: stable_def)
  then show ?case
    using Suc.IH by simp
qed

lemma stable_wait:
  assumes "stable env this I" and "I st"
  shows "I (snd (wait env this st))"
  using stable_drain [OF assms] by (simp add: wait_def)

lemma stable_guards:
  assumes "stable env this I" and "I st"
  shows "I (foldl (\<lambda>st (to_route, from_route).
               if this_beforeEachNavGuard this = None then st
               else tryBeforeEachNav this to_route from_route st) st gs)"
  using assms(2)
proof (induction gs arbitrary: st)
  case Nil
  then show ?case by simp
next
  case (Cons g gs)
  from assms(1) Cons.prems have "I (tryBeforeEachNav this (fst g) (snd g) st)"
    by (simp add: stable_def)
  with Cons.prems have "I (if this_beforeEachNavGuard this = None then st
                      else tryBeforeEachNav this (fst g) (snd g) st)"
    by simp
  then show ?case
    using Cons.IH by (simp add: split_beta)
qed

lemma stable_navigate:
  assumes "stable env this I" and "I st"
  shows "I (snd (navigate env this st))"
  using stable_send_all [OF assms(1) stable_guards [OF assms]]
  by (simp add: navigate_def)

lemma stable_do_mount:
  assumes "stable env this I" and "I st"
  shows "I (snd (do_mount this st))"
proof (cases "this_mount this")
  case None
  with assms(2) show ?thesis by (simp add: do_mount_def)
next
  case (Some m)
  have a: "I (snd (run_callback this (m ()) st))"
    by (rule stable_run_callback [OF assms])
  then have "\<And>c. I ((snd (run_callback this (m ()) st))\<lparr> this_component := c \<rparr>)"
    using assms(1) by (simp add: stable_def)
  with a Some show ?thesis
    by (cases "run_callback this (m ()) st"; cases "fst (run_callback this (m ()) st)")
       (simp_all add: do_mount_def)
qed

lemma stable_navigateAndMount:
  assumes "stable env this I" and "I st"
  shows "I (snd (navigateAndMount env this st))"
proof -
  have n: "I (snd (navigate env this st))"
    by (rule stable_navigate [OF assms])
  have m: "I (snd (do_mount this st))"
    by (rule stable_do_mount [OF assms])
  have nm: "I (snd (do_mount this (snd (navigate env this st))))"
    by (rule stable_do_mount [OF assms(1) n])
  show ?thesis
    using n m nm assms(2)
    by (cases "navigate env this st"; cases "do_mount this (snd (navigate env this st))";
        cases "fst (do_mount this (snd (navigate env this st)))")
       (simp_all add: navigateAndMount_def)
qed

lemma p_then_keeps:
  assumes "I (snd p)" and "\<And>v st. I st \<Longrightarrow> I (snd (f v st))"
  shows "I (snd (p_then p f))"
  using assms by (cases p; cases "fst p") simp_all

lemma p_finally_keeps:
  assumes "I (snd p)" and "\<And>st. I st \<Longrightarrow> I (snd (f st))"
  shows "I (snd (p_finally p f))"
  using assms by (simp add: snd_p_finally)

lemma stable_request_step:
  assumes "stable env this I" and "I st"
  shows "I (snd (case this_request this of
                   None \<Rightarrow> (Inr JUndefined, st)
                 | Some request_callback \<Rightarrow>
                     p_then (checkStateBeforeRequest st)
                       (\<lambda>_ st. run_callback this (request_callback (this_component st)) st)))"
proof (cases "this_request this")
  case None
  with assms(2) show ?thesis by simp
next
  case (Some f)
  have "I (snd (p_then (checkStateBeforeRequest st)
                       (\<lambda>_ st. run_callback this (f (this_component st)) st)))"
    by (rule p_then_keeps [where I = I]) (simp_all add: checkStateBeforeRequest_def assms stable_run_callback [OF assms(1)])
  with Some show ?thesis by simp
qed

lemma stable_before_wait:
  assumes "stable env this I" and "I (snd (initialPromise this st))"
  shows "I (snd (before_wait env this st))"
  unfolding before_wait_def
proof (intro p_then_keeps [where I = I])
  show "I (snd (initialPromise this st))" by (rule assms(2))
next
  fix v :: unit and st assume "I st"
  then show "I (snd (install_guard this st))" by (simp add: install_guard_def)
next
  fix v :: unit and st assume "I st"
  then show "I (snd (navigateAndMount env this st))" by (rule stable_navigateAndMount [OF assms(1)])
next
  fix v :: unit and st assume "I st"
  then show "I (snd (if truthy (this_location this) \<and> this_request this \<noteq> None
                            then wait env this st
                            else (Inr (), st)))"
    by (simp add: stable_wait [OF assms(1)])
next
  fix v :: unit and st assume "I st"
  then show "I (snd (case this_request this of
                   None \<Rightarrow> (Inr JUndefined, st)
                 | Some request_callback \<Rightarrow>
                     p_then (checkStateBeforeRequest st)
                       (\<lambda>_ st. run_callback this (request_callback (this_component st)) st)))"
    by (rule stable_request_step [OF assms(1)])
qed

lemma stable_waitUntil:
  assumes "stable env this I" and "I st"
  shows "I (snd (waitUntil env this poll st))"
  using stable_wait [OF assms(1) stable_send_all [OF assms]]
  by (simp add: waitUntil_def Let_def)

lemma stable_poll_step:
  assumes "stable env this I" and "I st"
  shows "I (snd (case pollWork opts of
                   None \<Rightarrow> (Inr (), st)
                 | Some poll \<Rightarrow> waitUntil env this poll st))"
  using assms(2) stable_waitUntil [OF assms]
  by (cases "pollWork opts") simp_all

lemma stable_before_restore:
  assumes "stable env this I" and "I (snd (initialPromise this st))"
  shows "I (snd (before_restore env this opts st))"
  unfolding before_restore_def
proof (intro p_finally_keeps [where I = I])
  show "I (snd (before_wait env this st))"
    by (rule stable_before_wait [OF assms])
next
  fix st assume "I st"
  then show "I (snd (wait env this st))" by (rule stable_wait [OF assms(1)])
next
  fix st assume "I st"
  then show "I (snd (case pollWork opts of
                   None \<Rightarrow> (Inr (), st)
                 | Some poll \<Rightarrow> waitUntil env this poll st))"
    by (rule stable_poll_step [OF assms(1)])
qed

section \<open>Execution phase: the transport is restored\<close>

text \<open>
  Claim C5. When a series began executing (the callback of \<^verbatim>\<open>_initialPromise\<close> ran and
  did not throw: the series took the lock and installed its stub), then once its chain
  has settled, fulfilled or rejected, \<^verbatim>\<open>Vue.prototype.$http\<close> is the value it had before.
\<close>

theorem transport_restored:
  assumes "fst (initialPromise this st) = Inr ()"
  shows "http (snd (pipeline env this opts st)) = http st
    \<and> (\<forall>next_series st'. afterResponses env this opts st = Inr (next_series, st') \<longrightarrow>
          http st' = http st)"
proof -
  let ?b = "snd (before_restore env this opts st)"
  have g: "globals ?b = globals (snd (initialPromise this st))"
    by (rule before_restore_globals)
  have "this_inProgress ?b" and "this_previousHttp ?b = http st"
    using g initialPromise_began(2,3) [OF assms] by (simp_all add: globals_def)
  then have "http (snd (until_restore env this opts st)) = http st"
    by (simp add: until_restore_state restoreHttp_def)
  then have p: "http (snd (pipeline env this opts st)) = http st"
    by (simp add: pipeline_state)
  then show ?thesis
    by (auto simp: afterResponses_def split: if_splits prod.splits)
qed

lemma get_users_begins: "fst (initialPromise get_users idle) = Inr ()"
  by (simp add: initialPromise_def initial_callback_def get_users_def mockHttp_fields idle_def
      fresh_this_def)

theorem transport_restored_witness:
  "fst (initialPromise get_users idle) = Inr ()
   \<and> http (snd (pipeline quiet get_users identity_hook idle)) = Installed 0
   \<and> (\<exists>next_series st'. afterResponses quiet get_users identity_hook idle = Inr (next_series, st')
         \<and> http st' = Installed 0)"
proof -
  obtain n s where a: "afterResponses quiet get_users identity_hook idle = Inr (n, s)"
    by (simp add: afterResponses_def get_users_def mockHttp_fields split_beta)
  note t = transport_restored [OF get_users_begins, of quiet identity_hook]
  from t a have "http s = http idle" by blast
  with t a get_users_begins show ?thesis
    by (simp add: idle_def fresh_this_def)
qed

section \<open>Awaiting a series without any setup\<close>

text \<open>
  Claim C10. \<^verbatim>\<open>toPromise\<close> (behind \<^verbatim>\<open>then\<close>, \<^verbatim>\<open>catch\<close>, \<^verbatim>\<open>finally\<close>) of a series with no
  location, guard, mount, request, responses or hooks and no previous promise returns
  \<^verbatim>\<open>Promise.resolve()\<close>: fulfilled with \<^verbatim>\<open>undefined\<close>, the state untouched (no promise chain was
  built, nothing ran), where \<^verbatim>\<open>afterResponses\<close> and \<^verbatim>\<open>complete\<close> throw for the same series.
\<close>

theorem await_unconfigured:
  assumes "nullish (this_location this)" and "this_beforeEachNavGuard this = None"
    and "this_mount this = None" and "this_request this = None"
    and "this_responses this = []" and "this_beforeAnyResponse this = None"
    and "this_beforeEachResponse this = None" and "this_previousPromise this = None"
  shows "toPromise env this st = Inr (Inr JUndefined, st)
    \<and> afterResponses env this opts st = Inl (Error ''route(), mount(), and/or request() required'')
    \<and> complete env this st = Inl (Error ''route(), mount(), and/or request() required'')"
  using assms by (simp add: toPromise_def afterResponses_def complete_def)

theorem await_unconfigured_witness:
  "toPromise quiet mockHttp idle = Inr (Inr JUndefined, idle)
    \<and> afterResponses quiet mockHttp identity_hook idle =
        Inl (Error ''route(), mount(), and/or request() required'')
    \<and> complete quiet mockHttp idle = Inl (Error ''route(), mount(), and/or request() required'')"
  using await_unconfigured [of mockHttp quiet idle identity_hook]
  by (simp add: mockHttp_fields)

section \<open>The promise of a request\<close>

lemma tryBeforeAnyResponse_fulfills [simp]: "\<not> isl (fst (tryBeforeAnyResponse this st))"
  by (cases "this_beforeAnyResponse this";
      cases "outcome (the (this_beforeAnyResponse this) (this_component st))")
     (simp_all add: tryBeforeAnyResponse_def run_callback_def)

lemma tryBeforeEachResponse_fulfills [simp]:
  "\<not> isl (fst (tryBeforeEachResponse this cfg i st))"
  by (cases "this_beforeEachResponse this";
      cases "outcome (the (this_beforeEachResponse this) (this_component st) cfg i)")
     (simp_all add: tryBeforeEachResponse_def run_callback_def)

lemma p_then_fulfilled: "\<not> isl (fst p) \<Longrightarrow> p_then p (\<lambda>_. g) = g (snd p)"
  by (cases p; cases "fst p") simp_all

lemma catch_noop_fulfills [simp]: "\<not> isl (fst (p_catch p (\<lambda>e st. (Inr None, st))))"
  by (cases p; cases "fst p") simp_all

text \<open>
  Whatever the chain before settled with and whatever the hooks do, the executor of a
  request runs.
\<close>

lemma run_task_executor: "\<exists>st'. run_task this t st = executor t st'"
  by (auto simp: run_task_def p_then_fulfilled)

lemma send_all_responsesPromise [simp]:
  "this_responsesPromise (send_all this cfgs st) = this_responsesPromise st"
  unfolding send_all_def
  by (induction cfgs arbitrary: st) (simp_all add: http_stub_def Let_def)

text \<open>
  Claim C6. When the response callback of a request returned a descriptor, the promise of
  the request fulfills with the response (status, data and the request's config) if the
  status is at least 200 and below 300, and rejects with an error that carries that
  response otherwise; it is what the chain \<^verbatim>\<open>this._responsesPromise\<close> has settled with
  after the turn of the request.
\<close>

theorem response_settles_by_status:
  assumes "t_responseCallback t = Some responseCallback" and "responseCallback () = Inr response"
  shows "fst (run_task this t st) =
     (if num_ge (status response) (Finite 200) \<and> num_less (status response) (Finite 300)
      then Inr (Some \<lparr> status = status response, data = data response, config = t_config t \<rparr>)
      else Inl (ResponseError
                  \<lparr> status = status response, data = data response, config = t_config t \<rparr>))
   \<and> (chained st = t # ts \<longrightarrow>
        this_responsesPromise (deliver env this st) = fst (run_task this t (st\<lparr> chained := ts \<rparr>)))
   \<and> ((num_ge (Finite q) (Finite 200) \<and> num_less (Finite q) (Finite 300)) = (200 \<le> q \<and> q < 300))"
proof -
  obtain st' where "run_task this t st = executor t st'"
    using run_task_executor by blast
  then have a: "fst (run_task this t st) =
     (if num_ge (status response) (Finite 200) \<and> num_less (status response) (Finite 300)
      then Inr (Some \<lparr> status = status response, data = data response, config = t_config t \<rparr>)
      else Inl (ResponseError
                  \<lparr> status = status response, data = data response, config = t_config t \<rparr>))"
    using assms by (simp add: executor_def Let_def)
  have b: "chained st = t # ts \<longrightarrow>
        this_responsesPromise (deliver env this st) = fst (run_task this t (st\<lparr> chained := ts \<rparr>))"
    by (simp add: deliver_def split_beta)
  have c: "(num_ge (Finite q) (Finite 200) \<and> num_less (Finite q) (Finite 300)) = (200 \<le> q \<and> q < 300)"
    by (auto simp: num_ge_def)
  from a b c show ?thesis by blast
qed

theorem response_settles_by_status_witness:
  "fst (run_task get_users ok_task idle) =
     Inr (Some \<lparr> status = Finite 200, data = JArr [], config = JStr ''/v1/users'' \<rparr>)
   \<and> fst (run_task get_users problem_task idle) =
     Inl (ResponseError \<lparr> status = Finite 404,
            data = JObj [(''code'', JNum (Finite 404.1)), (''message'', JStr ''There was a problem.'')],
            config = JStr ''/v1/users'' \<rparr>)
   \<and> this_responsesPromise (deliver quiet get_users (idle\<lparr> chained := [ok_task] \<rparr>)) =
     Inr (Some \<lparr> status = Finite 200, data = JArr [], config = JStr ''/v1/users'' \<rparr>)"
proof -
  have c1: "t_responseCallback ok_task = Some (\<lambda>_. Inr \<lparr> status = Finite 200, data = JArr [] \<rparr>)"
    by (simp add: ok_task_def)
  have c2: "t_responseCallback problem_task =
      Some (respond_callback (\<lambda>_. NaN) (\<lambda>_. Inr (JObj [(''problem'', JNum (Finite 404.1))])))"
    by (simp add: problem_task_def)
  have r2: "respond_callback (\<lambda>_. NaN) (\<lambda>_. Inr (JObj [(''problem'', JNum (Finite 404.1))])) () =
      Inr \<lparr> status = Finite 404,
            data = JObj [(''code'', JNum (Finite 404.1)), (''message'', JStr ''There was a problem.'')] \<rparr>"
    by (simp add: respond_callback_def Math_floor_def)
  have ch: "chained (idle\<lparr> chained := [ok_task] \<rparr>) = ok_task # []"
    by simp
  have up: "idle\<lparr> chained := [ok_task] \<rparr>\<lparr> chained := [] \<rparr> = idle"
    by (simp add: idle_def fresh_this_def)
  note a = response_settles_by_status [OF c1 refl, of get_users idle]
  note b = response_settles_by_status [OF c2 r2, of get_users idle]
  note d = response_settles_by_status [OF c1 refl, where st = "idle\<lparr> chained := [ok_task] \<rparr>"
      and ts = "[]" and this = get_users and env = quiet, THEN conjunct2, THEN conjunct1, rule_format, OF ch]
  have 1: "fst (run_task get_users ok_task idle) =
     Inr (Some \<lparr> status = Finite 200, data = JArr [], config = JStr ''/v1/users'' \<rparr>)"
    using a by (simp add: num_ge_def ok_task_def)
  have 2: "fst (run_task get_users problem_task idle) =
     Inl (ResponseError \<lparr> status = Finite 404,
            data = JObj [(''code'', JNum (Finite 404.1)), (''message'', JStr ''There was a problem.'')],
            config = JStr ''/v1/users'' \<rparr>)"
    using b by (simp add: num_ge_def problem_task_def)
  from d up 1 2 show ?thesis by simp
qed

section \<open>The lock\<close>

text \<open>
  A series that finds the lock taken rejects; and every chain, that of a refused series
  too, ends in \<^verbatim>\<open>_cleanUpAfterResponses\<close>, which clears the module variable.
\<close>

lemma refused_when_locked:
  assumes "inProgress st" and "this_previousPromise this = None"
  shows "initialPromise this st = (Inl (Error ''another series is in progress''), st)"
  using assms by (simp add: initialPromise_def initial_callback_def)

lemma cleared_after_any_chain: "\<not> inProgress (snd (pipeline env this opts st))"
  by (simp add: pipeline_state)

text \<open>
  Claim C3, evaluated. Series A begins and is still executing (its chain has not
  reached its cleanup). Series B starts and is refused; its chain runs to its end.
  Series C starts next: the module variable is clear although A is still executing, so C
  takes the lock as well.
\<close>

theorem lock_released_by_refused_series:
  "(let stA = snd (initialPromise get_users idle);
        (rB, stB) = pipeline quiet get_users identity_hook (other_this stA);
        (rC, stC) = initialPromise get_users (other_this stB)
    in this_inProgress stA \<and> inProgress stA
       \<and> rB = Inl (Error ''another series is in progress'') \<and> \<not> inProgress stB
       \<and> rC = Inr () \<and> this_inProgress stC \<and> inProgress stC)"
  by code_simp


section \<open>Requests and responses are counted\<close>

lemma initialPromise_cases:
  assumes "fst (initialPromise this st) = Inr ()"
  obtains c where "initialPromise this st = initial_callback this c st" and "\<not> inProgress st"
  using assms
  by (auto simp: initialPromise_def initial_callback_def p_then_def
      split: option.splits sum.splits if_splits)

lemma counted_initial:
  assumes "fst (initialPromise this st) = Inr ()"
  shows "counted this (snd (initialPromise this st))"
proof -
  from assms obtain c where "initialPromise this st = initial_callback this c st" and "\<not> inProgress st"
    by (rule initialPromise_cases)
  then show ?thesis
    by (auto simp: initial_callback_def setHttp_def counted_def requests_sent_def)
qed

lemma counted_http_stub: "counted this st \<Longrightarrow> counted this (snd (http_stub this cfg st))"
  by (auto simp: counted_def http_stub_def requests_sent_def Let_def)

lemma counted_updates [simp]:
  "counted this (st\<lparr> events := ev \<rparr>) = counted this st"
  "counted this (st\<lparr> chained := ts \<rparr>) = counted this st"
  "counted this (st\<lparr> this_component := c \<rparr>) = counted this st"
  "counted this (st\<lparr> this_responsesPromise := r \<rparr>) = counted this st"
  "counted this (st\<lparr> this_errorFromBeforeEachNav := e0 \<rparr>) = counted this st"
  "counted this (st\<lparr> this_errorFromBeforeAnyResponse := e1 \<rparr>) = counted this st"
  "counted this (st\<lparr> this_errorFromBeforeEachResponse := e2 \<rparr>) = counted this st"
  "counted this (st\<lparr> this_errorFromResponse := e3 \<rparr>) = counted this st"
  "counted this (st\<lparr> eachFailedAt := k \<rparr>) = counted this st"
  "counted this (st\<lparr> http := h \<rparr>) = counted this st"
  "counted this (st\<lparr> this_requestResponseLog := this_requestResponseLog st @ [Response x] \<rparr>) =
     counted this st"
  by (simp_all add: counted_def requests_sent_def)

lemma counted_send_all: "counted this st \<Longrightarrow> counted this (send_all this cfgs st)"
  unfolding send_all_def
  by (induction cfgs arbitrary: st) (simp_all add: counted_http_stub)

lemma counted_tryBeforeAnyResponse:
  "counted this st \<Longrightarrow> counted this (snd (tryBeforeAnyResponse this st))"
  by (cases "this_beforeAnyResponse this";
      cases "outcome (the (this_beforeAnyResponse this) (this_component st))")
     (simp_all add: tryBeforeAnyResponse_def run_callback_def counted_send_all)

lemma counted_tryBeforeEachResponse:
  "counted this st \<Longrightarrow> counted this (snd (tryBeforeEachResponse this cfg i st))"
  by (cases "this_beforeEachResponse this";
      cases "outcome (the (this_beforeEachResponse this) (this_component st) cfg i)")
     (simp_all add: tryBeforeEachResponse_def run_callback_def counted_send_all)

lemma counted_executor: "counted this st \<Longrightarrow> counted this (snd (executor t st))"
  by (simp add: executor_def Let_def split: option.splits sum.splits)

lemma p_catch_keeps:
  assumes "I (snd p)" and "\<And>e st. I st \<Longrightarrow> I (snd (f e st))"
  shows "I (snd (p_catch p f))"
  using assms by (cases p; cases "fst p") simp_all

lemma counted_run_task: "counted this st \<Longrightarrow> counted this (snd (run_task this t st))"
  unfolding run_task_def
  by (intro p_then_keeps [where I = "counted this"] p_catch_keeps [where I = "counted this"])
     (simp_all add: counted_tryBeforeAnyResponse counted_tryBeforeEachResponse counted_executor)

lemma counted_deliver: "counted this st \<Longrightarrow> counted this (deliver env this st)"
proof (cases "chained st")
  case Nil
  assume "counted this st"
  with Nil show ?thesis by (simp add: deliver_def)
next
  case (Cons t ts)
  assume "counted this st"
  then have "counted this (snd (run_task this t (st\<lparr> chained := ts \<rparr>)))"
    by (simp add: counted_run_task)
  with Cons show ?thesis
    by (simp add: deliver_def split_beta counted_send_all)
qed

lemma counted_tryBeforeEachNav:
  "counted this st \<Longrightarrow> counted this (tryBeforeEachNav this a b st)"
  by (simp add: tryBeforeEachNav_def split: option.splits sum.splits)

lemma stable_counted: "stable env this (counted this)"
  by (simp add: stable_def counted_http_stub counted_deliver counted_tryBeforeEachNav)

lemma p_then_rejected: "isl (fst p) \<Longrightarrow> isl (fst (p_then p f))"
  by (cases p; cases "fst p") simp_all

lemma p_finally_rejected: "isl (fst p) \<Longrightarrow> isl (fst (p_finally p f))"
  by (cases p; cases "fst p"; cases "f (snd p)"; cases "fst (f (snd p))")
     (simp_all add: p_finally_def)

lemma until_restore_fulfilled:
  assumes "until_restore env this opts st = (Inr v, st1)"
  shows "fst (initialPromise this st) = Inr ()"
proof (rule ccontr)
  assume "fst (initialPromise this st) \<noteq> Inr ()"
  then have "isl (fst (initialPromise this st))"
    by (cases "fst (initialPromise this st)") auto
  then have "isl (fst (until_restore env this opts st))"
    unfolding until_restore_def
    by (intro p_finally_rejected p_then_rejected)
  with assms show False by simp
qed

lemma counted_at_verify:
  assumes "until_restore env this opts st = (Inr v, st1)"
  shows "counted this st1"
proof -
  have "counted this (snd (before_restore env this opts st))"
    by (rule stable_before_restore [OF stable_counted counted_initial [OF until_restore_fulfilled [OF assms]]])
  then have "counted this (snd (until_restore env this opts st))"
    by (simp add: until_restore_state restoreHttp_def)
  with assms show ?thesis by simp
qed

lemma pipeline_after_restore:
  assumes "until_restore env this opts st = (Inr v, st1)"
  shows "fst (pipeline env this opts st) =
     (case fst (checkStateAfterWait st1) of
        Inl e \<Rightarrow> Inl e
      | Inr u \<Rightarrow> (case callback opts (this_component st1) of
                    Inl e \<Rightarrow> Inl e
                  | Inr result \<Rightarrow> Inr \<lparr> p_component = this_component st1, p_result = result \<rparr>))"
proof -
  have c: "checkStateAfterWait st1 = (fst (checkStateAfterWait st1), st1)"
    by (simp add: prod_eq_iff)
  show ?thesis
    unfolding pipeline_def assms
    by (subst p_then_Inr, subst c)
       (cases "fst (checkStateAfterWait st1)"; cases "callback opts (this_component st1)";
        simp add: p_finally_def cleanUpAfterResponses_def)
qed

text \<open>
  Claim C2, as the code has it. When the chain reaches the verify step (no step before it
  rejected: the series took the lock, and mounting, navigation, the request callback and
  the poll went through) and no error of the navigation guard, of a hook or of a response
  callback is stored, then: more requests than queued responses reject with "request
  without response", fewer with "response without request", and with as many requests as
  responses the promise settles as the completion callback does, fulfilled with
  \<^verbatim>\<open>{ component, result }\<close> when it returns.
\<close>

theorem cardinality_checked:
  assumes "until_restore env this opts st = (Inr v, st1)"
    and "this_errorFromBeforeEachNav st1 = None"
    and "this_errorFromBeforeAnyResponse st1 = None"
    and "this_errorFromBeforeEachResponse st1 = None"
    and "this_errorFromResponse st1 = None"
  shows "(length (this_responses this) < requests_sent st1 \<longrightarrow>
            fst (pipeline env this opts st) =
              Inl (Error ''request without response: no response specified for request''))
    \<and> (requests_sent st1 < length (this_responses this) \<longrightarrow>
            fst (pipeline env this opts st) =
              Inl (Error ''response without request: not all responses were requested''))
    \<and> (requests_sent st1 = length (this_responses this) \<longrightarrow>
            fst (pipeline env this opts st) =
              (case callback opts (this_component st1) of
                 Inl e \<Rightarrow> Inl e
               | Inr result \<Rightarrow> Inr \<lparr> p_component = this_component st1, p_result = result \<rparr>))"
proof -
  have c: "counted this st1"
    by (rule counted_at_verify [OF assms(1)])
  show ?thesis
    using c assms(2-5)
    by (auto simp: pipeline_after_restore [OF assms(1)] checkStateAfterWait_def counted_def)
qed

text \<open>
  Claim C2 as stated fails twice. With two requests and one queued response whose
  callback throws, the promise rejects with the error of the response callback, which
  \<^verbatim>\<open>_checkStateAfterWait\<close> tests first, not with a cardinality error. With one request and one
  response and no hook or response callback failing, the promise still rejects when the
  request callback does: \<^verbatim>\<open>_checkStateAfterWait\<close> is chained with \<^verbatim>\<open>then\<close> and is skipped.
\<close>

theorem cardinality_counterexample:
  "requests_sent (snd (pipeline quiet failing_response identity_hook idle)) = 2
   \<and> length (this_responses failing_response) = 1
   \<and> fst (pipeline quiet failing_response identity_hook idle) =
       Inl (Error ''a response callback threw an error'')
   \<and> requests_sent (snd (pipeline quiet failing_request identity_hook idle)) = 1
   \<and> length (this_responses failing_request) = 1
   \<and> this_errorFromBeforeEachNav (snd (pipeline quiet failing_request identity_hook idle)) = None
   \<and> this_errorFromBeforeAnyResponse (snd (pipeline quiet failing_request identity_hook idle)) = None
   \<and> this_errorFromBeforeEachResponse (snd (pipeline quiet failing_request identity_hook idle)) = None
   \<and> this_errorFromResponse (snd (pipeline quiet failing_request identity_hook idle)) = None
   \<and> fst (pipeline quiet failing_request identity_hook idle) =
       Inl (Thrown (JStr ''no such element''))"
  by code_simp

theorem cardinality_checked_witness:
  "fst (pipeline quiet request_without_response identity_hook idle) =
     Inl (Error ''request without response: no response specified for request'')
   \<and> fst (pipeline quiet response_without_request identity_hook idle) =
     Inl (Error ''response without request: not all responses were requested'')
   \<and> fst (pipeline quiet get_users identity_hook idle) =
     Inr \<lparr> p_component = JUndefined, p_result = JUndefined \<rparr>"
proof -
  let ?u1 = "until_restore quiet request_without_response identity_hook idle"
  let ?u2 = "until_restore quiet response_without_request identity_hook idle"
  let ?u3 = "until_restore quiet get_users identity_hook idle"
  have r1: "?u1 = (Inr JUndefined, snd ?u1)" by code_simp
  have r2: "?u2 = (Inr JUndefined, snd ?u2)" by code_simp
  have r3: "?u3 = (Inr JUndefined, snd ?u3)" by code_simp
  have e1: "this_errorFromBeforeEachNav (snd ?u1) = None" "this_errorFromBeforeAnyResponse (snd ?u1) = None"
    "this_errorFromBeforeEachResponse (snd ?u1) = None" "this_errorFromResponse (snd ?u1) = None"
    by code_simp+
  have e2: "this_errorFromBeforeEachNav (snd ?u2) = None" "this_errorFromBeforeAnyResponse (snd ?u2) = None"
    "this_errorFromBeforeEachResponse (snd ?u2) = None" "this_errorFromResponse (snd ?u2) = None"
    by code_simp+
  have e3: "this_errorFromBeforeEachNav (snd ?u3) = None" "this_errorFromBeforeAnyResponse (snd ?u3) = None"
    "this_errorFromBeforeEachResponse (snd ?u3) = None" "this_errorFromResponse (snd ?u3) = None"
    by code_simp+
  have n1: "length (this_responses request_without_response) < requests_sent (snd ?u1)" by code_simp
  have n2: "requests_sent (snd ?u2) < length (this_responses response_without_request)" by code_simp
  have n3: "requests_sent (snd ?u3) = length (this_responses get_users)" by code_simp
  have c3: "callback identity_hook (this_component (snd ?u3)) = Inr JUndefined" by code_simp
  have c4: "this_component (snd ?u3) = JUndefined" by code_simp
  show ?thesis
    using cardinality_checked [OF r1 e1] cardinality_checked [OF r2 e2]
      cardinality_checked [OF r3 e3] n1 n2 n3 c3 c4
    by simp
qed

section \<open>Errors of the callbacks\<close>

lemma http_stub_stored_errors [simp]:
  "stored_errors (snd (http_stub this cfg st)) = stored_errors st"
  by (simp add: http_stub_def stored_errors_def Let_def)

lemma send_all_stored_errors [simp]: "stored_errors (send_all this cfgs st) = stored_errors st"
  unfolding send_all_def
  by (induction cfgs arbitrary: st) simp_all

lemma send_all_errors [simp]:
  "this_errorFromBeforeEachNav (send_all this cfgs st) = this_errorFromBeforeEachNav st"
  "this_errorFromBeforeAnyResponse (send_all this cfgs st) = this_errorFromBeforeAnyResponse st"
  "this_errorFromBeforeEachResponse (send_all this cfgs st) = this_errorFromBeforeEachResponse st"
  "this_errorFromResponse (send_all this cfgs st) = this_errorFromResponse st"
  using send_all_stored_errors [of this cfgs st]
  by (simp_all add: stored_errors_def)

lemma tryBeforeAnyResponse_errorFromResponse [simp]:
  "this_errorFromResponse (snd (tryBeforeAnyResponse this st)) = this_errorFromResponse st"
  by (cases "this_beforeAnyResponse this";
      cases "outcome (the (this_beforeAnyResponse this) (this_component st))")
     (simp_all add: tryBeforeAnyResponse_def run_callback_def)

lemma tryBeforeEachResponse_errorFromResponse [simp]:
  "this_errorFromResponse (snd (tryBeforeEachResponse this cfg i st)) = this_errorFromResponse st"
  by (cases "this_beforeEachResponse this";
      cases "outcome (the (this_beforeEachResponse this) (this_component st) cfg i)")
     (simp_all add: tryBeforeEachResponse_def run_callback_def)

lemma fst_executor: "fst (executor t st) = fst (executor t st')"
  by (simp add: executor_def Let_def split: option.splits sum.splits)

lemma snd_catch_noop [simp]: "snd (p_catch (r, st) (\<lambda>e st. (Inr None, st))) = st"
  by (cases r) simp_all

lemma before_executor_state:
  "snd (before_executor this t st) =
     (let st1 = (if t_index t = 0 \<and> this_beforeAnyResponse this \<noteq> None
                 then snd (tryBeforeAnyResponse this st) else st)
      in if this_beforeEachResponse this \<noteq> None
         then snd (tryBeforeEachResponse this (t_config t) (t_index t) st1) else st1)"
  by (simp add: before_executor_def p_then_fulfilled Let_def)

lemma before_executor_fulfills [simp]: "\<not> isl (fst (before_executor this t st))"
  by (simp add: before_executor_def p_then_fulfilled)

lemma run_task_before_executor:
  "run_task this t st = executor t (snd (before_executor this t st))"
proof -
  have "run_task this t st = p_then (before_executor this t st) (\<lambda>_ st. executor t st)"
    by (simp add: run_task_def before_executor_def)
  then show ?thesis
    by (simp add: p_then_fulfilled)
qed

lemma before_executor_errorFromResponse [simp]:
  "this_errorFromResponse (snd (before_executor this t st)) = this_errorFromResponse st"
  by (simp add: before_executor_state Let_def)

text \<open>
  Claim C7, as the code has it. \<^verbatim>\<open>_tryBeforeEachNav\<close>, \<^verbatim>\<open>_tryBeforeAnyResponse\<close> and
  \<^verbatim>\<open>_tryBeforeEachResponse\<close> catch what the callback throws and store it; the two hooks
  fulfill all the same, and the promise of a request settles as its executor decides,
  whatever the hooks did. An error of a response callback is stored as well, unless one
  that is not \<^verbatim>\<open>undefined\<close> or \<^verbatim>\<open>null\<close> is stored already, and it is also what the promise of
  that request rejects with. What is stored counts as an error when it is not
  \<^verbatim>\<open>undefined\<close> or \<^verbatim>\<open>null\<close> (the tests are \<^verbatim>\<open>!= null\<close>). When the chain reaches the verify
  step with such an error stored, its promise rejects there with one labelled error: the
  first category that has one, in the order navigation guard, \<^verbatim>\<open>beforeAnyResponse\<close>,
  \<^verbatim>\<open>beforeEachResponse\<close>, response callback.
\<close>

theorem hook_errors_stored:
  assumes "until_restore env this opts st = (Inr v, st1)"
  shows "(this_inProgress s \<and> \<not> not_null (this_errorFromBeforeEachNav s)
          \<and> this_beforeEachNavGuard this = Some guard \<and> guard (this_component s) a b = Inl e \<longrightarrow>
            this_errorFromBeforeEachNav (tryBeforeEachNav this a b s) = Some e)
    \<and> (this_beforeAnyResponse this = Some any_hook \<and> outcome (any_hook (this_component s)) = Inl e \<longrightarrow>
          \<not> isl (fst (tryBeforeAnyResponse this s))
          \<and> this_errorFromBeforeAnyResponse (snd (tryBeforeAnyResponse this s)) = Some e)
    \<and> (this_beforeEachResponse this = Some each_hook
        \<and> \<not> not_null (this_errorFromBeforeEachResponse s)
        \<and> outcome (each_hook (this_component s) cfg i) = Inl e \<longrightarrow>
          \<not> isl (fst (tryBeforeEachResponse this cfg i s))
          \<and> this_errorFromBeforeEachResponse (snd (tryBeforeEachResponse this cfg i s)) = Some e)
    \<and> fst (run_task this t s) = fst (executor t s)
    \<and> (t_responseCallback t = Some responseCallback \<and> responseCallback () = Inl e \<longrightarrow>
          fst (run_task this t s) = Inl e
          \<and> this_errorFromResponse (snd (run_task this t s)) =
              (if not_null (this_errorFromResponse s) then this_errorFromResponse s else Some e))
    \<and> (not_null (this_errorFromBeforeEachNav st1) \<longrightarrow>
          fst (pipeline env this opts st) = Inl (Error ''beforeEachNav() callback threw an error''))
    \<and> (\<not> not_null (this_errorFromBeforeEachNav st1)
        \<and> not_null (this_errorFromBeforeAnyResponse st1) \<longrightarrow>
          fst (pipeline env this opts st) =
            Inl (Error ''beforeAnyResponse() callback threw an error''))
    \<and> (\<not> not_null (this_errorFromBeforeEachNav st1)
        \<and> \<not> not_null (this_errorFromBeforeAnyResponse st1)
        \<and> not_null (this_errorFromBeforeEachResponse st1) \<longrightarrow>
          fst (pipeline env this opts st) =
            Inl (Error ''beforeEachResponse() callback threw an error''))
    \<and> (\<not> not_null (this_errorFromBeforeEachNav st1)
        \<and> \<not> not_null (this_errorFromBeforeAnyResponse st1)
        \<and> \<not> not_null (this_errorFromBeforeEachResponse st1)
        \<and> not_null (this_errorFromResponse st1) \<longrightarrow>
          fst (pipeline env this opts st) = Inl (Error ''a response callback threw an error''))
    \<and> not_null (Some e) = (e \<noteq> Thrown JUndefined \<and> e \<noteq> Thrown JNull)
    \<and> \<not> not_null None"
proof -
  have nav: "this_inProgress s \<and> \<not> not_null (this_errorFromBeforeEachNav s)
          \<and> this_beforeEachNavGuard this = Some guard \<and> guard (this_component s) a b = Inl e \<longrightarrow>
            this_errorFromBeforeEachNav (tryBeforeEachNav this a b s) = Some e"
    by (simp add: tryBeforeEachNav_def)
  have any: "this_beforeAnyResponse this = Some any_hook \<and> outcome (any_hook (this_component s)) = Inl e \<longrightarrow>
          \<not> isl (fst (tryBeforeAnyResponse this s))
          \<and> this_errorFromBeforeAnyResponse (snd (tryBeforeAnyResponse this s)) = Some e"
    by (simp add: tryBeforeAnyResponse_def run_callback_def)
  have each: "this_beforeEachResponse this = Some each_hook
        \<and> \<not> not_null (this_errorFromBeforeEachResponse s)
        \<and> outcome (each_hook (this_component s) cfg i) = Inl e \<longrightarrow>
          \<not> isl (fst (tryBeforeEachResponse this cfg i s))
          \<and> this_errorFromBeforeEachResponse (snd (tryBeforeEachResponse this cfg i s)) = Some e"
    by (simp add: tryBeforeEachResponse_def run_callback_def)
  define s' where "s' = snd (before_executor this t s)"
  have rt: "run_task this t s = executor t s'"
    and same: "this_errorFromResponse s' = this_errorFromResponse s"
    by (simp_all add: s'_def run_task_before_executor)
  have ex: "fst (run_task this t s) = fst (executor t s)"
    using rt fst_executor [of t s' s] by simp
  have resp: "t_responseCallback t = Some responseCallback \<and> responseCallback () = Inl e \<longrightarrow>
          fst (run_task this t s) = Inl e
          \<and> this_errorFromResponse (snd (run_task this t s)) =
              (if not_null (this_errorFromResponse s) then this_errorFromResponse s else Some e)"
    using rt same by (simp add: executor_def)
  note p = pipeline_after_restore [OF assms]
  have v1: "not_null (this_errorFromBeforeEachNav st1) \<longrightarrow>
          fst (pipeline env this opts st) = Inl (Error ''beforeEachNav() callback threw an error'')"
    by (simp add: p checkStateAfterWait_def)
  have v2: "\<not> not_null (this_errorFromBeforeEachNav st1)
        \<and> not_null (this_errorFromBeforeAnyResponse st1) \<longrightarrow>
          fst (pipeline env this opts st) =
            Inl (Error ''beforeAnyResponse() callback threw an error'')"
    by (simp add: p checkStateAfterWait_def)
  have v3: "\<not> not_null (this_errorFromBeforeEachNav st1)
        \<and> \<not> not_null (this_errorFromBeforeAnyResponse st1)
        \<and> not_null (this_errorFromBeforeEachResponse st1) \<longrightarrow>
          fst (pipeline env this opts st) =
            Inl (Error ''beforeEachResponse() callback threw an error'')"
    by (simp add: p checkStateAfterWait_def)
  have v4: "\<not> not_null (this_errorFromBeforeEachNav st1)
        \<and> \<not> not_null (this_errorFromBeforeAnyResponse st1)
        \<and> \<not> not_null (this_errorFromBeforeEachResponse st1)
        \<and> not_null (this_errorFromResponse st1) \<longrightarrow>
          fst (pipeline env this opts st) = Inl (Error ''a response callback threw an error'')"
    by (simp add: p checkStateAfterWait_def)
  have nn: "not_null (Some e) = (e \<noteq> Thrown JUndefined \<and> e \<noteq> Thrown JNull)"
  proof (cases e)
    case (Thrown x)
    then show ?thesis by (cases x) simp_all
  qed simp_all
  have n0: "\<not> not_null None"
    by simp
  from nav any each ex resp v1 v2 v3 v4 nn n0 show ?thesis
    by (intro conjI)
qed

text \<open>
  Claim C7 as stated fails three times. An error of a response callback is propagated
  through the response chain: the promise given to the application rejects with it. A
  stored error is not reported with its label when the chain does not reach the verify
  step: here the request callback rejects too, and the promise rejects with that error.
  And a hook that throws \<^verbatim>\<open>undefined\<close> leaves a property that \<^verbatim>\<open>_checkStateAfterWait\<close> reads
  as no error: the promise fulfills.
\<close>

theorem hook_errors_counterexample:
  "this_responsesPromise (snd (pipeline quiet failing_response_alone identity_hook idle)) =
     Inl (Thrown (JStr ''user already exists''))
   \<and> this_errorFromBeforeAnyResponse
        (snd (pipeline quiet failing_hook_and_request identity_hook idle)) =
       Some (Thrown (JStr ''assertion failed''))
   \<and> fst (pipeline quiet failing_hook_and_request identity_hook idle) =
       Inl (Thrown (JStr ''no such element''))
   \<and> this_errorFromBeforeAnyResponse
        (snd (pipeline quiet throwing_undefined identity_hook idle)) = Some (Thrown JUndefined)
   \<and> fst (pipeline quiet throwing_undefined identity_hook idle) =
       Inr \<lparr> p_component = JUndefined, p_result = JUndefined \<rparr>"
  by code_simp

theorem hook_errors_stored_witness:
  "fst (pipeline quiet failing_any_hook identity_hook idle) =
     Inl (Error ''beforeAnyResponse() callback threw an error'')
   \<and> this_errorFromBeforeAnyResponse (snd (tryBeforeAnyResponse failing_any_hook idle)) =
       Some (Thrown (JStr ''assertion failed''))
   \<and> \<not> isl (fst (tryBeforeAnyResponse failing_any_hook idle))
   \<and> fst (pipeline one_navigation failing_guard identity_hook idle) =
       Inl (Error ''beforeEachNav() callback threw an error'')
   \<and> this_errorFromBeforeEachNav
        (tryBeforeEachNav failing_guard (JStr ''/users'') (JStr ''/'') (idle\<lparr> this_inProgress := True \<rparr>)) =
       Some (Thrown (JStr ''assertion failed''))
   \<and> fst (pipeline quiet failing_each_hook identity_hook idle) =
       Inl (Error ''beforeEachResponse() callback threw an error'')
   \<and> this_errorFromBeforeEachResponse
        (snd (tryBeforeEachResponse failing_each_hook (JStr ''/v1/users'') 0 idle)) =
       Some (Thrown (JStr ''assertion failed''))
   \<and> fst (pipeline quiet failing_response_alone identity_hook idle) =
       Inl (Error ''a response callback threw an error'')
   \<and> fst (run_task failing_response_alone failing_task idle) =
       Inl (Thrown (JStr ''user already exists''))
   \<and> this_errorFromResponse (snd (run_task failing_response_alone failing_task idle)) =
       Some (Thrown (JStr ''user already exists''))"
proof -
  let ?e = "Thrown (JStr ''assertion failed'')"
  let ?a = "until_restore quiet failing_any_hook identity_hook idle"
  have ra: "?a = (Inr JUndefined, snd ?a)" by code_simp
  have ha: "this_beforeAnyResponse failing_any_hook = Some throwing_hook"
    by (simp add: failing_any_hook_def)
  have o: "outcome (throwing_hook (this_component idle)) = Inl ?e"
    by (simp add: throwing_hook_def)
  have na: "\<not> not_null (this_errorFromBeforeEachNav (snd ?a))" by code_simp
  have aa: "not_null (this_errorFromBeforeAnyResponse (snd ?a))" by code_simp
  note A = hook_errors_stored [OF ra, where s = idle and any_hook = throwing_hook and e = ?e]
  let ?g = "until_restore one_navigation failing_guard identity_hook idle"
  let ?s = "idle\<lparr> this_inProgress := True \<rparr>"
  have rg: "?g = (Inr JUndefined, snd ?g)" by code_simp
  have hg: "this_beforeEachNavGuard failing_guard = Some throwing_guard"
    by (simp add: failing_guard_def)
  have og: "throwing_guard (this_component ?s) (JStr ''/users'') (JStr ''/'') = Inl ?e"
    by (simp add: throwing_guard_def)
  have sg: "this_inProgress ?s" "\<not> not_null (this_errorFromBeforeEachNav ?s)"
    by (simp_all add: idle_def fresh_this_def)
  have ng: "not_null (this_errorFromBeforeEachNav (snd ?g))" by code_simp
  note G = hook_errors_stored [OF rg, where s = ?s and guard = throwing_guard and e = ?e
      and a = "JStr ''/users''" and b = "JStr ''/''"]
  let ?h = "until_restore quiet failing_each_hook identity_hook idle"
  have rh: "?h = (Inr JUndefined, snd ?h)" by code_simp
  have hh: "this_beforeEachResponse failing_each_hook = Some (\<lambda>component cfg index. throwing_hook component)"
    by (simp add: failing_each_hook_def)
  have sh: "\<not> not_null (this_errorFromBeforeEachResponse idle)"
    by (simp add: idle_def fresh_this_def)
  have nh: "\<not> not_null (this_errorFromBeforeEachNav (snd ?h))"
    "\<not> not_null (this_errorFromBeforeAnyResponse (snd ?h))"
    "not_null (this_errorFromBeforeEachResponse (snd ?h))" by code_simp+
  note H = hook_errors_stored [OF rh, where s = idle
      and each_hook = "\<lambda>component cfg index. throwing_hook component" and e = ?e
      and cfg = "JStr ''/v1/users''" and i = 0]
  let ?r = "until_restore quiet failing_response_alone identity_hook idle"
  let ?x = "Thrown (JStr ''user already exists'')"
  have rr: "?r = (Inr JUndefined, snd ?r)" by code_simp
  have hr: "t_responseCallback failing_task = Some (\<lambda>_. Inl ?x)"
    by (simp add: failing_task_def)
  have sr: "\<not> not_null (this_errorFromResponse idle)"
    by (simp add: idle_def fresh_this_def)
  have nr: "\<not> not_null (this_errorFromBeforeEachNav (snd ?r))"
    "\<not> not_null (this_errorFromBeforeAnyResponse (snd ?r))"
    "\<not> not_null (this_errorFromBeforeEachResponse (snd ?r))"
    "not_null (this_errorFromResponse (snd ?r))" by code_simp+
  note R0 = hook_errors_stored [OF rr, where s = idle and t = failing_task
      and responseCallback = "\<lambda>_. Inl ?x" and e = ?x]
  note R = R0 [THEN conjunct2, THEN conjunct2, THEN conjunct2, THEN conjunct2, THEN conjunct1]
    R0 [THEN conjunct2, THEN conjunct2, THEN conjunct2, THEN conjunct2, THEN conjunct2,
        THEN conjunct2, THEN conjunct2, THEN conjunct2, THEN conjunct1]
  have 1: "fst (pipeline quiet failing_any_hook identity_hook idle) =
     Inl (Error ''beforeAnyResponse() callback threw an error'')
   \<and> this_errorFromBeforeAnyResponse (snd (tryBeforeAnyResponse failing_any_hook idle)) =
       Some (Thrown (JStr ''assertion failed''))
   \<and> \<not> isl (fst (tryBeforeAnyResponse failing_any_hook idle))"
    using A ha o na aa by simp
  have 2: "fst (pipeline one_navigation failing_guard identity_hook idle) =
       Inl (Error ''beforeEachNav() callback threw an error'')
   \<and> this_errorFromBeforeEachNav
        (tryBeforeEachNav failing_guard (JStr ''/users'') (JStr ''/'') ?s) = Some ?e"
    using G hg og sg ng by simp
  have 3: "fst (pipeline quiet failing_each_hook identity_hook idle) =
       Inl (Error ''beforeEachResponse() callback threw an error'')
   \<and> this_errorFromBeforeEachResponse
        (snd (tryBeforeEachResponse failing_each_hook (JStr ''/v1/users'') 0 idle)) = Some ?e"
    using H hh o sh nh by simp
  have 4: "fst (pipeline quiet failing_response_alone identity_hook idle) =
       Inl (Error ''a response callback threw an error'')
   \<and> fst (run_task failing_response_alone failing_task idle) = Inl ?x
   \<and> this_errorFromResponse (snd (run_task failing_response_alone failing_task idle)) = Some ?x"
    using R hr sr nr by simp
  from 1 2 3 4 show ?thesis by simp
qed

section \<open>The order of the responses\<close>

lemma upt_snoc: "k \<le> n \<Longrightarrow> Suc n = m \<Longrightarrow> [k ..< n] @ [n] = [k ..< m]"
  by auto

lemma queued_http_stub: "queued k st \<Longrightarrow> queued k (snd (http_stub this cfg st))"
  by (auto simp: queued_def http_stub_def Let_def intro: upt_snoc)

lemma queued_send_all: "queued k st \<Longrightarrow> queued k (send_all this cfgs st)"
  unfolding send_all_def
  by (induction cfgs arbitrary: st) (simp_all add: queued_http_stub)

lemma queued_updates [simp]:
  "queued k (st\<lparr> events := ev \<rparr>) = queued k st"
  "queued k (st\<lparr> this_component := c \<rparr>) = queued k st"
  "queued k (st\<lparr> this_responsesPromise := r \<rparr>) = queued k st"
  "queued k (st\<lparr> this_errorFromBeforeEachNav := e0 \<rparr>) = queued k st"
  "queued k (st\<lparr> this_errorFromBeforeAnyResponse := e1 \<rparr>) = queued k st"
  "queued k (st\<lparr> this_errorFromBeforeEachResponse := e2 \<rparr>) = queued k st"
  "queued k (st\<lparr> this_errorFromResponse := e3 \<rparr>) = queued k st"
  "queued k (st\<lparr> eachFailedAt := f \<rparr>) = queued k st"
  "queued k (st\<lparr> this_requestResponseLog := l \<rparr>) = queued k st"
  by (simp_all add: queued_def)

lemma http_stub_observed [simp]:
  "events (snd (http_stub this cfg st)) = events st"
  "eachFailedAt (snd (http_stub this cfg st)) = eachFailedAt st"
  by (simp_all add: http_stub_def Let_def)

lemma send_all_observed [simp]:
  "events (send_all this cfgs st) = events st"
  "eachFailedAt (send_all this cfgs st) = eachFailedAt st"
  unfolding send_all_def
  by (induction cfgs arbitrary: st) simp_all

text \<open>The \<^verbatim>\<open>beforeAnyResponse\<close> link of a turn.\<close>

lemma tryBeforeAnyResponse_turn:
  assumes "this_beforeAnyResponse this \<noteq> None"
  shows "events (snd (tryBeforeAnyResponse this st)) = events st @ [BeforeAny]"
    and "eachFailedAt (snd (tryBeforeAnyResponse this st)) = eachFailedAt st"
    and "this_errorFromBeforeEachResponse (snd (tryBeforeAnyResponse this st)) =
           this_errorFromBeforeEachResponse st"
    and "queued k st \<Longrightarrow> queued k (snd (tryBeforeAnyResponse this st))"
  using assms
  by (cases "this_beforeAnyResponse this";
      cases "outcome (the (this_beforeAnyResponse this) (this_component st))";
      simp add: tryBeforeAnyResponse_def run_callback_def queued_send_all)+

text \<open>The \<^verbatim>\<open>beforeEachResponse\<close> link of the turn of request \<open>i\<close>.\<close>

lemma tryBeforeEachResponse_turn:
  assumes "this_beforeEachResponse this \<noteq> None"
  shows "events (snd (tryBeforeEachResponse this cfg i st)) =
           events st @ (if \<not> not_null (this_errorFromBeforeEachResponse st) then [BeforeEach i] else [])"
    and "not_null (this_errorFromBeforeEachResponse st) \<Longrightarrow>
           eachFailedAt (snd (tryBeforeEachResponse this cfg i st)) = eachFailedAt st
           \<and> not_null (this_errorFromBeforeEachResponse (snd (tryBeforeEachResponse this cfg i st)))"
    and "\<not> not_null (this_errorFromBeforeEachResponse st) \<Longrightarrow>
           (eachFailedAt (snd (tryBeforeEachResponse this cfg i st)) = eachFailedAt st
            \<and> \<not> not_null (this_errorFromBeforeEachResponse (snd (tryBeforeEachResponse this cfg i st))))
           \<or> (eachFailedAt (snd (tryBeforeEachResponse this cfg i st)) = Some i
              \<and> not_null (this_errorFromBeforeEachResponse (snd (tryBeforeEachResponse this cfg i st))))"
    and "queued k st \<Longrightarrow> queued k (snd (tryBeforeEachResponse this cfg i st))"
  using assms
  by (cases "this_beforeEachResponse this";
      cases "outcome (the (this_beforeEachResponse this) (this_component st) cfg i)";
      simp add: tryBeforeEachResponse_def run_callback_def queued_send_all)+

lemma executor_observed [simp]:
  "events (snd (executor t st)) = events st"
  "eachFailedAt (snd (executor t st)) = eachFailedAt st"
  "this_errorFromBeforeEachResponse (snd (executor t st)) = this_errorFromBeforeEachResponse st"
  "queued k (snd (executor t st)) = queued k st"
  by (simp_all add: executor_def Let_def queued_def split: option.splits sum.splits)

lemma before_executor_turn:
  shows "events (snd (before_executor this t st)) =
           events st
           @ (if t_index t = 0 \<and> this_beforeAnyResponse this \<noteq> None then [BeforeAny] else [])
           @ (if this_beforeEachResponse this \<noteq> None \<and> \<not> not_null (this_errorFromBeforeEachResponse st)
              then [BeforeEach (t_index t)] else [])"
    and "not_null (this_errorFromBeforeEachResponse st) \<Longrightarrow>
           eachFailedAt (snd (before_executor this t st)) = eachFailedAt st
           \<and> not_null (this_errorFromBeforeEachResponse (snd (before_executor this t st)))"
    and "\<not> not_null (this_errorFromBeforeEachResponse st) \<Longrightarrow>
           (eachFailedAt (snd (before_executor this t st)) = eachFailedAt st
            \<and> \<not> not_null (this_errorFromBeforeEachResponse (snd (before_executor this t st))))
           \<or> (this_beforeEachResponse this \<noteq> None
              \<and> eachFailedAt (snd (before_executor this t st)) = Some (t_index t)
              \<and> not_null (this_errorFromBeforeEachResponse (snd (before_executor this t st))))"
    and "queued k st \<Longrightarrow> queued k (snd (before_executor this t st))"
proof -
  let ?a = "t_index t = 0 \<and> this_beforeAnyResponse this \<noteq> None"
  let ?st1 = "if ?a then snd (tryBeforeAnyResponse this st) else st"
  let ?e = "this_beforeEachResponse this \<noteq> None"
  have s: "snd (before_executor this t st) =
      (if ?e then snd (tryBeforeEachResponse this (t_config t) (t_index t) ?st1) else ?st1)"
    by (simp add: before_executor_state Let_def)
  have ev1: "events ?st1 = events st @ (if ?a then [BeforeAny] else [])"
    by (simp add: tryBeforeAnyResponse_turn)
  have f1: "eachFailedAt ?st1 = eachFailedAt st"
    by (simp add: tryBeforeAnyResponse_turn)
  have e1: "this_errorFromBeforeEachResponse ?st1 = this_errorFromBeforeEachResponse st"
    by (simp add: tryBeforeAnyResponse_turn)
  have q1: "queued k st \<Longrightarrow> queued k ?st1"
    by (simp add: tryBeforeAnyResponse_turn)
  show "events (snd (before_executor this t st)) =
           events st
           @ (if t_index t = 0 \<and> this_beforeAnyResponse this \<noteq> None then [BeforeAny] else [])
           @ (if this_beforeEachResponse this \<noteq> None \<and> \<not> not_null (this_errorFromBeforeEachResponse st)
              then [BeforeEach (t_index t)] else [])"
    unfolding s using ev1 e1
    by (cases ?e) (simp_all add: tryBeforeEachResponse_turn(1))
  show "not_null (this_errorFromBeforeEachResponse st) \<Longrightarrow>
           eachFailedAt (snd (before_executor this t st)) = eachFailedAt st
           \<and> not_null (this_errorFromBeforeEachResponse (snd (before_executor this t st)))"
    unfolding s using f1 e1 tryBeforeEachResponse_turn(2) [of this ?st1 "t_config t" "t_index t"]
    by (cases ?e) simp_all
  show "\<not> not_null (this_errorFromBeforeEachResponse st) \<Longrightarrow>
           (eachFailedAt (snd (before_executor this t st)) = eachFailedAt st
            \<and> \<not> not_null (this_errorFromBeforeEachResponse (snd (before_executor this t st))))
           \<or> (this_beforeEachResponse this \<noteq> None
              \<and> eachFailedAt (snd (before_executor this t st)) = Some (t_index t)
              \<and> not_null (this_errorFromBeforeEachResponse (snd (before_executor this t st))))"
    unfolding s using f1 e1 tryBeforeEachResponse_turn(3) [of this ?st1 "t_config t" "t_index t"]
    by (cases ?e) simp_all
  show "queued k st \<Longrightarrow> queued k (snd (before_executor this t st))"
    unfolding s using q1 tryBeforeEachResponse_turn(4) [of this k ?st1 "t_config t" "t_index t"]
    by (cases ?e) simp_all
qed

lemma block_before_failure: "i < d \<Longrightarrow> block this (Some d) i = block this None i"
  by (simp add: block_def)

lemma blocks_before_failure:
  "map (block this (Some d)) [0 ..< d] = map (block this None) [0 ..< d]"
  by (simp add: block_before_failure)

text \<open>One turn of the chain appends the block of the request whose turn it is.\<close>

lemma sequenced_deliver:
  assumes "sequenced this d st" and "chained st = t # ts"
  shows "sequenced this (Suc d) (deliver env this st)"
proof -
  let ?st0 = "st\<lparr> chained := ts \<rparr>"
  let ?st1 = "snd (before_executor this t ?st0)"
  let ?st2 = "snd (executor t ?st1)"
  let ?r = "fst (executor t ?st1)"
  let ?st3 = "?st2\<lparr> this_responsesPromise := ?r, events := events ?st2 @ [Settled (t_index t)] \<rparr>"
  have d: "deliver env this st = send_all this (reaction env (t_index t) ?r) ?st3"
    using assms(2) by (simp add: deliver_def split_beta run_task_before_executor)
  from assms have ix: "t_index t # map t_index ts = [d ..< http_count st]"
    by (simp add: sequenced_def queued_def)
  then have lt: "d < http_count st"
    by (cases "d < http_count st") simp_all
  with ix have i: "t_index t = d" and rest: "map t_index ts = [Suc d ..< http_count st]"
    by (simp_all add: upt_conv_Cons)
  have q0: "queued (Suc d) ?st0"
    using rest lt by (simp add: queued_def)
  have q: "queued (Suc d) (deliver env this st)"
    unfolding d
    by (intro queued_send_all) (simp add: before_executor_turn(4) [OF q0])
  from assms(1) have ev: "events st = concat (map (block this (eachFailedAt st)) [0 ..< d])"
    and fe: "(eachFailedAt st = None) = (\<not> not_null (this_errorFromBeforeEachResponse st))"
    and fk: "case eachFailedAt st of None \<Rightarrow> True | Some k \<Rightarrow> k < d"
    by (simp_all add: sequenced_def)
  have ev': "events (deliver env this st) =
      events st
      @ (if d = 0 \<and> this_beforeAnyResponse this \<noteq> None then [BeforeAny] else [])
      @ (if this_beforeEachResponse this \<noteq> None \<and> \<not> not_null (this_errorFromBeforeEachResponse st)
         then [BeforeEach d] else [])
      @ [Settled d]"
    unfolding d by (simp add: before_executor_turn(1) i)
  have f': "eachFailedAt (deliver env this st) = eachFailedAt ?st1"
    and e': "this_errorFromBeforeEachResponse (deliver env this st) =
               this_errorFromBeforeEachResponse ?st1"
    unfolding d by simp_all
  show ?thesis
  proof (cases "\<not> not_null (this_errorFromBeforeEachResponse st)")
    case False
    with fe obtain k where k: "eachFailedAt st = Some k" by auto
    with fk have kd: "k < d" by simp
    from False before_executor_turn(2) [of ?st0 this t]
    have "eachFailedAt ?st1 = Some k" and "not_null (this_errorFromBeforeEachResponse ?st1)"
      using k by simp_all
    then show ?thesis
      using q ev' ev f' e' k kd False
      by (simp add: sequenced_def block_def)
  next
    case True
    with fe have n: "eachFailedAt st = None" by simp
    from True before_executor_turn(3) [of ?st0 this t]
    consider (same) "eachFailedAt ?st1 = None" "\<not> not_null (this_errorFromBeforeEachResponse ?st1)"
      | (failed) "this_beforeEachResponse this \<noteq> None" "eachFailedAt ?st1 = Some d"
          "not_null (this_errorFromBeforeEachResponse ?st1)"
      using n i by auto
    then show ?thesis
    proof cases
      case same
      then show ?thesis
        using q ev' ev f' e' n True
        by (simp add: sequenced_def block_def)
    next
      case failed
      then show ?thesis
        using q ev' ev f' e' n True
        by (simp add: sequenced_def block_def blocks_before_failure)
    qed
  qed
qed

lemma sequenced_http_stub:
  "sequenced this d st \<Longrightarrow> sequenced this d (snd (http_stub this cfg st))"
proof -
  assume a: "sequenced this d st"
  have "this_errorFromBeforeEachResponse (snd (http_stub this cfg st)) =
          this_errorFromBeforeEachResponse st"
    by (simp add: http_stub_def Let_def)
  with a show ?thesis
    by (simp add: sequenced_def queued_http_stub)
qed

lemma sequenced_updates [simp]:
  "sequenced this d (st\<lparr> this_errorFromBeforeEachNav := e0 \<rparr>) = sequenced this d st"
  "sequenced this d (st\<lparr> this_component := c \<rparr>) = sequenced this d st"
  by (simp_all add: sequenced_def)

lemma sequenced_tryBeforeEachNav:
  "sequenced this d st \<Longrightarrow> sequenced this d (tryBeforeEachNav this a b st)"
  by (simp add: tryBeforeEachNav_def split: option.splits sum.splits)

lemma stable_sequenced: "stable env this (\<lambda>st. \<exists>d. sequenced this d st)"
proof -
  have "\<And>st d. sequenced this d st \<Longrightarrow> \<exists>d'. sequenced this d' (deliver env this st)"
  proof -
    fix st d assume a: "sequenced this d st"
    show "\<exists>d'. sequenced this d' (deliver env this st)"
    proof (cases "chained st")
      case Nil
      with a show ?thesis by (auto simp: deliver_def)
    next
      case (Cons t ts)
      from sequenced_deliver [OF a Cons] show ?thesis by blast
    qed
  qed
  moreover have "\<And>st d c. sequenced this d st \<Longrightarrow> sequenced this d (st\<lparr> this_component := c \<rparr>)"
    by (simp add: sequenced_def)
  ultimately show ?thesis
    unfolding stable_def
    by (blast intro: sequenced_http_stub sequenced_tryBeforeEachNav)
qed

lemma sequenced_initial:
  assumes "fst (initialPromise this st) = Inr ()"
  shows "sequenced this 0 (snd (initialPromise this st))"
proof -
  from assms obtain c where "initialPromise this st = initial_callback this c st" and "\<not> inProgress st"
    by (rule initialPromise_cases)
  then show ?thesis
    by (simp add: initial_callback_def setHttp_def sequenced_def queued_def)
qed

section \<open>The wait drains the chain\<close>

lemma http_stub_potential:
  assumes "bounded this st"
  shows "bounded this (snd (http_stub this cfg st))"
    and "potential this (snd (http_stub this cfg st)) = potential this st"
  using assms by (auto simp: bounded_def potential_def http_stub_def Let_def)

lemma send_all_potential:
  assumes "bounded this st"
  shows "bounded this (send_all this cfgs st) \<and> potential this (send_all this cfgs st) = potential this st"
  using assms unfolding send_all_def
  by (induction cfgs arbitrary: st) (simp_all add: http_stub_potential)

lemma potential_updates [simp]:
  "potential this (st\<lparr> events := ev \<rparr>) = potential this st"
  "potential this (st\<lparr> this_component := c \<rparr>) = potential this st"
  "potential this (st\<lparr> this_responsesPromise := r \<rparr>) = potential this st"
  "potential this (st\<lparr> this_errorFromBeforeEachNav := e0 \<rparr>) = potential this st"
  "potential this (st\<lparr> this_errorFromBeforeAnyResponse := e1 \<rparr>) = potential this st"
  "potential this (st\<lparr> this_errorFromBeforeEachResponse := e2 \<rparr>) = potential this st"
  "potential this (st\<lparr> this_errorFromResponse := e3 \<rparr>) = potential this st"
  "potential this (st\<lparr> eachFailedAt := f \<rparr>) = potential this st"
  "potential this (st\<lparr> this_requestResponseLog := l \<rparr>) = potential this st"
  "bounded this (st\<lparr> events := ev \<rparr>) = bounded this st"
  "bounded this (st\<lparr> this_component := c \<rparr>) = bounded this st"
  "bounded this (st\<lparr> this_responsesPromise := r \<rparr>) = bounded this st"
  "bounded this (st\<lparr> this_errorFromBeforeEachNav := e0 \<rparr>) = bounded this st"
  "bounded this (st\<lparr> this_errorFromBeforeAnyResponse := e1 \<rparr>) = bounded this st"
  "bounded this (st\<lparr> this_errorFromBeforeEachResponse := e2 \<rparr>) = bounded this st"
  "bounded this (st\<lparr> this_errorFromResponse := e3 \<rparr>) = bounded this st"
  "bounded this (st\<lparr> eachFailedAt := f \<rparr>) = bounded this st"
  "bounded this (st\<lparr> this_requestResponseLog := l \<rparr>) = bounded this st"
  "bounded this (st\<lparr> chained := ts \<rparr>) = bounded this st"
  by (simp_all add: potential_def bounded_def)

lemma tryBeforeAnyResponse_potential:
  assumes "bounded this st"
  shows "bounded this (snd (tryBeforeAnyResponse this st))
    \<and> potential this (snd (tryBeforeAnyResponse this st)) = potential this st"
  using assms send_all_potential [of this "st\<lparr> events := events st @ [BeforeAny] \<rparr>"]
  by (cases "this_beforeAnyResponse this";
      cases "outcome (the (this_beforeAnyResponse this) (this_component st))")
     (simp_all add: tryBeforeAnyResponse_def run_callback_def)

lemma tryBeforeEachResponse_potential:
  assumes "bounded this st"
  shows "bounded this (snd (tryBeforeEachResponse this cfg i st))
    \<and> potential this (snd (tryBeforeEachResponse this cfg i st)) = potential this st"
  using assms send_all_potential [of this "st\<lparr> events := events st @ [BeforeEach i] \<rparr>"]
  by (cases "this_beforeEachResponse this";
      cases "outcome (the (this_beforeEachResponse this) (this_component st) cfg i)")
     (simp_all add: tryBeforeEachResponse_def run_callback_def)

lemma before_executor_potential:
  assumes "bounded this st"
  shows "bounded this (snd (before_executor this t st))
    \<and> potential this (snd (before_executor this t st)) = potential this st"
proof -
  let ?st1 = "if t_index t = 0 \<and> this_beforeAnyResponse this \<noteq> None
              then snd (tryBeforeAnyResponse this st) else st"
  have a: "bounded this ?st1 \<and> potential this ?st1 = potential this st"
    using assms by (simp add: tryBeforeAnyResponse_potential)
  then show ?thesis
    using tryBeforeEachResponse_potential [of this ?st1 "t_config t" "t_index t"]
    by (simp add: before_executor_state Let_def)
qed

lemma executor_potential [simp]:
  "bounded this (snd (executor t st)) = bounded this st"
  "potential this (snd (executor t st)) = potential this st"
  by (simp_all add: executor_def Let_def bounded_def potential_def split: option.splits sum.splits)

lemma deliver_potential:
  assumes "bounded this st" and "chained st = t # ts"
  shows "bounded this (deliver env this st)"
    and "Suc (potential this (deliver env this st)) = potential this st"
proof -
  let ?st0 = "st\<lparr> chained := ts \<rparr>"
  let ?st1 = "snd (before_executor this t ?st0)"
  let ?st2 = "snd (executor t ?st1)"
  let ?r = "fst (executor t ?st1)"
  let ?st3 = "?st2\<lparr> this_responsesPromise := ?r, events := events ?st2 @ [Settled (t_index t)] \<rparr>"
  have d: "deliver env this st = send_all this (reaction env (t_index t) ?r) ?st3"
    using assms(2) by (simp add: deliver_def split_beta run_task_before_executor)
  have b0: "bounded this ?st0" using assms(1) by simp
  have p0: "Suc (potential this ?st0) = potential this st"
    using assms(2) by (simp add: potential_def)
  from before_executor_potential [OF b0, of t]
  have b3: "bounded this ?st3" and p3: "potential this ?st3 = potential this ?st0"
    by simp_all
  from send_all_potential [OF b3] p3 p0 d
  show "bounded this (deliver env this st)"
    and "Suc (potential this (deliver env this st)) = potential this st"
    by simp_all
qed

lemma deliver_empty: "chained st = [] \<Longrightarrow> deliver env this st = st"
  by (simp add: deliver_def)

lemma drain_empty: "chained st = [] \<Longrightarrow> drain env this n st = st"
  by (induction n) (simp_all add: deliver_empty)

lemma drain_drains:
  assumes "bounded this st" and "potential this st \<le> n"
  shows "chained (drain env this n st) = []"
  using assms
proof (induction n arbitrary: st)
  case 0
  then show ?case by (simp add: potential_def)
next
  case (Suc n)
  show ?case
  proof (cases "chained st")
    case Nil
    then show ?thesis by (simp add: deliver_empty drain_empty)
  next
    case (Cons t ts)
    from deliver_potential [OF Suc.prems(1) Cons, of env] Suc.prems(2)
    have "bounded this (deliver env this st)" and "potential this (deliver env this st) \<le> n"
      by simp_all
    then show ?thesis
      using Suc.IH by simp
  qed
qed

lemma wait_drains: "bounded this st \<Longrightarrow> chained (snd (wait env this st)) = []"
  by (simp add: wait_def drain_drains potential_def)

lemma stable_bounded: "stable env this (bounded this)"
proof -
  have "\<And>st. bounded this st \<Longrightarrow> bounded this (deliver env this st)"
  proof -
    fix st assume a: "bounded this st"
    show "bounded this (deliver env this st)"
      by (cases "chained st") (simp_all add: deliver_empty a deliver_potential(1) [OF a])
  qed
  moreover have "\<And>a b st. bounded this st \<Longrightarrow> bounded this (tryBeforeEachNav this a b st)"
    by (simp add: tryBeforeEachNav_def split: option.splits sum.splits)
  ultimately show ?thesis
    unfolding stable_def
    by (auto simp: http_stub_potential(1))
qed

lemma bounded_initial:
  assumes "fst (initialPromise this st) = Inr ()"
  shows "bounded this (snd (initialPromise this st))"
proof -
  from assms obtain c where "initialPromise this st = initial_callback this c st" and "\<not> inProgress st"
    by (rule initialPromise_cases)
  then show ?thesis
    by (simp add: initial_callback_def setHttp_def bounded_def)
qed

lemma pipeline_final_state:
  "\<exists>h. snd (pipeline env this opts st) =
     (snd (before_restore env this opts st))
       \<lparr> http := h, this_inProgress := False, inProgress := False \<rparr>"
proof -
  let ?w = "snd (before_restore env this opts st)"
  have u: "snd (until_restore env this opts st) = snd (restoreHttp ?w)"
    by (simp add: until_restore_state)
  show ?thesis
  proof (cases "this_inProgress ?w")
    case True
    with u have "snd (pipeline env this opts st) =
        ?w\<lparr> http := this_previousHttp ?w, this_inProgress := False, inProgress := False \<rparr>"
      by (simp add: pipeline_state restoreHttp_def)
    then show ?thesis by blast
  next
    case False
    with u have "snd (pipeline env this opts st) =
        ?w\<lparr> http := http ?w, this_inProgress := False, inProgress := False \<rparr>"
      by (simp add: pipeline_state restoreHttp_def)
    then show ?thesis by blast
  qed
qed

text \<open>When the polling is over no callback is left on the response chain.\<close>

lemma before_restore_drained:
  assumes "fst (initialPromise this st) = Inr ()"
  shows "chained (snd (before_restore env this opts st)) = []"
proof -
  let ?b = "snd (before_wait env this st)"
  let ?w = "snd (wait env this ?b)"
  have "bounded this ?b"
    by (rule stable_before_wait [OF stable_bounded bounded_initial [OF assms]])
  then have e: "chained ?w = []" and b: "bounded this ?w"
    by (simp_all add: wait_drains stable_wait [OF stable_bounded])
  have r: "snd (before_restore env this opts st) =
      snd (case pollWork opts of
             None \<Rightarrow> (Inr (), ?w)
           | Some poll \<Rightarrow> waitUntil env this poll ?w)"
    by (simp add: before_restore_def snd_p_finally cong: option.case_cong)
  show ?thesis
  proof (cases "pollWork opts")
    case None
    with r e show ?thesis by simp
  next
    case (Some poll)
    have "bounded this (send_all this (polling_sends env) ?w)"
      by (rule stable_send_all [OF stable_bounded b])
    then have "chained (snd (wait env this (send_all this (polling_sends env) ?w))) = []"
      by (rule wait_drains)
    with r Some show ?thesis
      by (simp add: waitUntil_def Let_def)
  qed
qed

lemma settled_of_blocks:
  "filter is_settled (concat (map (block this failed) xs)) = map Settled xs"
  by (induction xs) (simp_all add: block_def)

lemma any_of_blocks:
  "filter (\<lambda>e. e = BeforeAny) (concat (map (block this failed) [0 ..< n])) =
     (if this_beforeAnyResponse this \<noteq> None \<and> 0 < n then [BeforeAny] else [])"
  by (induction n) (auto simp: block_def)

lemma any_first:
  "this_beforeAnyResponse this \<noteq> None \<Longrightarrow> 0 < n \<Longrightarrow>
   \<exists>rest. concat (map (block this failed) [0 ..< n]) = BeforeAny # rest"
  by (simp add: upt_conv_Cons block_def)

text \<open>
  Claim C1, as the code has it. When a series began executing, the events of its
  execution are, in this order, the blocks of the requests that found a queued response,
  numbered as they were received: request \<open>i\<close> has its turn after request \<open>i - 1\<close>; in its
  turn the \<^verbatim>\<open>beforeAnyResponse\<close> callback runs if it is the first request, then the
  \<^verbatim>\<open>beforeEachResponse\<close> callback runs for it unless that callback has failed for an earlier
  request with an error that is not \<^verbatim>\<open>undefined\<close> or \<^verbatim>\<open>null\<close> (the test of
  \<^verbatim>\<open>_tryBeforeEachResponse\<close> is \<^verbatim>\<open>!= null\<close>), and then its promise settles. So the promises
  settle in the order of the requests, and the \<^verbatim>\<open>beforeAnyResponse\<close> callback runs once,
  first of all, when a request found a queued response, and not at all when none did.
  The requests that found a queued response are the first ones, as many as there are
  responses at most; when the chain ends none is left waiting.
\<close>

theorem responses_in_request_order:
  assumes "fst (initialPromise this st) = Inr ()"
  shows "(let st' = snd (pipeline env this opts st) in
           events st' = concat (map (block this (eachFailedAt st')) [0 ..< http_count st'])
           \<and> filter is_settled (events st') = map Settled [0 ..< http_count st']
           \<and> filter (\<lambda>e. e = BeforeAny) (events st') =
               (if this_beforeAnyResponse this \<noteq> None \<and> 0 < http_count st' then [BeforeAny] else [])
           \<and> (this_beforeAnyResponse this \<noteq> None \<and> 0 < http_count st' \<longrightarrow>
                 (\<exists>rest. events st' = BeforeAny # rest))
           \<and> http_count st' = min (requests_sent st') (length (this_responses this))
           \<and> chained st' = []
           \<and> (eachFailedAt st' = None) = (\<not> not_null (this_errorFromBeforeEachResponse st'))
           \<and> (case eachFailedAt st' of None \<Rightarrow> True | Some k \<Rightarrow> k < http_count st'))"
proof -
  let ?w = "snd (before_restore env this opts st)"
  have empty: "chained ?w = []"
    by (rule before_restore_drained [OF assms])
  have "\<exists>d. sequenced this d ?w"
    by (rule stable_before_restore [OF stable_sequenced])
       (use sequenced_initial [OF assms] in blast)
  then obtain d where s: "sequenced this d ?w" by blast
  from s empty have "[d ..< http_count ?w] = []" and "d \<le> http_count ?w"
    by (simp_all add: sequenced_def queued_def)
  then have d: "d = http_count ?w"
    by auto
  have c: "counted this ?w"
    by (rule stable_before_restore [OF stable_counted counted_initial [OF assms]])
  obtain h where f: "snd (pipeline env this opts st) =
      ?w\<lparr> http := h, this_inProgress := False, inProgress := False \<rparr>"
    using pipeline_final_state by blast
  let ?st' = "snd (pipeline env this opts st)"
  have same: "events ?st' = events ?w" "eachFailedAt ?st' = eachFailedAt ?w"
    "http_count ?st' = http_count ?w" "chained ?st' = chained ?w"
    "requests_sent ?st' = requests_sent ?w"
    "this_errorFromBeforeEachResponse ?st' = this_errorFromBeforeEachResponse ?w"
    by (simp_all add: f requests_sent_def)
  from s have ev: "events ?w = concat (map (block this (eachFailedAt ?w)) [0 ..< http_count ?w])"
    and fe: "(eachFailedAt ?w = None) = (\<not> not_null (this_errorFromBeforeEachResponse ?w))"
    and fk: "case eachFailedAt ?w of None \<Rightarrow> True | Some k \<Rightarrow> k < http_count ?w"
    unfolding d [symmetric] by (simp_all add: sequenced_def)
  from c have cnt: "http_count ?w = min (requests_sent ?w) (length (this_responses this))"
    by (simp add: counted_def)
  have se: "filter is_settled (events ?w) = map Settled [0 ..< http_count ?w]"
    unfolding ev by (rule settled_of_blocks)
  have an: "filter (\<lambda>e. e = BeforeAny) (events ?w) =
      (if this_beforeAnyResponse this \<noteq> None \<and> 0 < http_count ?w then [BeforeAny] else [])"
    unfolding ev by (rule any_of_blocks)
  have af: "this_beforeAnyResponse this \<noteq> None \<and> 0 < http_count ?w \<longrightarrow>
      (\<exists>rest. events ?w = BeforeAny # rest)"
    using ev any_first [of this "http_count ?w" "eachFailedAt ?w"] by auto
  show ?thesis
    unfolding Let_def same using ev se an af fe fk cnt empty by blast
qed

theorem responses_in_request_order_witness:
  "fst (initialPromise hooked idle) = Inr ()
   \<and> events (snd (pipeline quiet hooked identity_hook idle)) =
       [BeforeAny, BeforeEach 0, Settled 0, BeforeEach 1, Settled 1]
   \<and> fst (initialPromise each_throwing_undefined idle) = Inr ()
   \<and> events (snd (pipeline quiet each_throwing_undefined identity_hook idle)) =
       [BeforeAny, BeforeEach 0, Settled 0, BeforeEach 1, Settled 1]"
proof -
  have b: "fst (initialPromise hooked idle) = Inr ()" by code_simp
  have n: "http_count (snd (pipeline quiet hooked identity_hook idle)) = Suc (Suc 0)" by code_simp
  have f: "eachFailedAt (snd (pipeline quiet hooked identity_hook idle)) = None" by code_simp
  have h: "this_beforeAnyResponse hooked \<noteq> None" "this_beforeEachResponse hooked \<noteq> None"
    by (simp_all add: hooked_def)
  have 1: "events (snd (pipeline quiet hooked identity_hook idle)) =
       [BeforeAny, BeforeEach 0, Settled 0, BeforeEach 1, Settled 1]"
    using responses_in_request_order [OF b, of quiet identity_hook] h
    unfolding Let_def n f
    by (simp add: block_def upt_rec)
  have b': "fst (initialPromise each_throwing_undefined idle) = Inr ()" by code_simp
  have n': "http_count (snd (pipeline quiet each_throwing_undefined identity_hook idle)) =
      Suc (Suc 0)" by code_simp
  have f': "eachFailedAt (snd (pipeline quiet each_throwing_undefined identity_hook idle)) = None"
    by code_simp
  have h': "this_beforeAnyResponse each_throwing_undefined \<noteq> None"
    "this_beforeEachResponse each_throwing_undefined \<noteq> None"
    by (simp_all add: each_throwing_undefined_def hooked_def)
  have 2: "events (snd (pipeline quiet each_throwing_undefined identity_hook idle)) =
       [BeforeAny, BeforeEach 0, Settled 0, BeforeEach 1, Settled 1]"
    using responses_in_request_order [OF b', of quiet identity_hook] h'
    unfolding Let_def n' f'
    by (simp add: block_def upt_rec)
  from b b' 1 2 show ?thesis by simp
qed

text \<open>
  Claim C1 as stated fails twice. Once the \<^verbatim>\<open>beforeEachResponse\<close> callback has thrown an
  error, \<^verbatim>\<open>_tryBeforeEachResponse\<close> does not run it again: here it throws for the first of
  two requests, and the response to the second settles without it. And the
  \<^verbatim>\<open>beforeAnyResponse\<close> callback does not run once but not at all when no request finds a
  response: here a response is queued and the mounted component sends no request.
\<close>

theorem each_hook_counterexample:
  "this_beforeEachResponse failing_each_hook \<noteq> None
   \<and> events (snd (pipeline quiet failing_each_hook identity_hook idle)) =
       [BeforeAny, BeforeEach 0, Settled 0, Settled 1]
   \<and> this_beforeAnyResponse unrequested \<noteq> None
   \<and> length (this_responses unrequested) = 1
   \<and> fst (initialPromise unrequested idle) = Inr ()
   \<and> events (snd (pipeline quiet unrequested identity_hook idle)) = []"
  by code_simp

end
